theory Spec2Isabelle
  imports Main
begin

section \<open>Python strings\<close>

text \<open>
  A Python \<open>str\<close> is a sequence of Unicode code points. A code point is a natural number
  and a string is a list of them; \<open>cps\<close> turns an ASCII literal into that list.
\<close>

type_synonym codepoint = nat
type_synonym pystr = "codepoint list"

definition cps :: "string \<Rightarrow> pystr" where
  "cps s = map of_char s"

text \<open>
  The \<open>str\<close> methods the script calls are CPython's. On ASCII code points their behaviour
  is fixed and written out below. On the other code points they read the Unicode character
  database, which is not part of the repository: it is a parameter of the model.
\<close>

record unicode_db =
  u_isspace :: "codepoint \<Rightarrow> bool"
  u_isalnum :: "codepoint \<Rightarrow> bool"
  u_iscased :: "codepoint \<Rightarrow> bool"
  u_iscaseignorable :: "codepoint \<Rightarrow> bool"
  u_tolower :: "codepoint \<Rightarrow> codepoint list"
  u_toupper :: "codepoint \<Rightarrow> codepoint list"
  u_totitle :: "codepoint \<Rightarrow> codepoint list"

definition is_ascii :: "codepoint \<Rightarrow> bool" where
  "is_ascii c = (c < 128)"

definition ascii_isupper :: "codepoint \<Rightarrow> bool" where
  "ascii_isupper c = (65 \<le> c \<and> c \<le> 90)"

definition ascii_islower :: "codepoint \<Rightarrow> bool" where
  "ascii_islower c = (97 \<le> c \<and> c \<le> 122)"

definition ascii_isdigit :: "codepoint \<Rightarrow> bool" where
  "ascii_isdigit c = (48 \<le> c \<and> c \<le> 57)"

definition ascii_lower :: "codepoint \<Rightarrow> codepoint" where
  "ascii_lower c = (if ascii_isupper c then c + 32 else c)"

definition ascii_upper :: "codepoint \<Rightarrow> codepoint" where
  "ascii_upper c = (if ascii_islower c then c - 32 else c)"

text \<open>\<open>ch.isspace()\<close>: tab, LF, VT, FF, CR, FS, GS, RS, US and the space in ASCII.\<close>

definition isspace :: "unicode_db \<Rightarrow> codepoint \<Rightarrow> bool" where
  "isspace U c =
     (if is_ascii c then (9 \<le> c \<and> c \<le> 13) \<or> (28 \<le> c \<and> c \<le> 32) else u_isspace U c)"

text \<open>\<open>ch.isalnum()\<close>: letters and digits in ASCII.\<close>

definition isalnum :: "unicode_db \<Rightarrow> codepoint \<Rightarrow> bool" where
  "isalnum U c =
     (if is_ascii c then ascii_isupper c \<or> ascii_islower c \<or> ascii_isdigit c
      else u_isalnum U c)"

definition iscased :: "unicode_db \<Rightarrow> codepoint \<Rightarrow> bool" where
  "iscased U c = (if is_ascii c then ascii_isupper c \<or> ascii_islower c else u_iscased U c)"

definition tolower_full :: "unicode_db \<Rightarrow> codepoint \<Rightarrow> pystr" where
  "tolower_full U c = (if is_ascii c then [ascii_lower c] else u_tolower U c)"

definition toupper_full :: "unicode_db \<Rightarrow> codepoint \<Rightarrow> pystr" where
  "toupper_full U c = (if is_ascii c then [ascii_upper c] else u_toupper U c)"

definition totitle_full :: "unicode_db \<Rightarrow> codepoint \<Rightarrow> pystr" where
  "totitle_full U c = (if is_ascii c then [ascii_upper c] else u_totitle U c)"

text \<open>
  Lower-casing one position of a string. The capital sigma U+03A3 is the only character
  whose lower case depends on its neighbours: it becomes the final sigma U+03C2 when a cased
  character precedes it and none follows, case-ignorable characters skipped on both sides.
\<close>

definition final_sigma :: "unicode_db \<Rightarrow> pystr \<Rightarrow> nat \<Rightarrow> bool" where
  "final_sigma U s i =
     (let before = dropWhile (u_iscaseignorable U) (rev (take i s));
          after = dropWhile (u_iscaseignorable U) (drop (Suc i) s)
      in (case before of [] \<Rightarrow> False | b # _ \<Rightarrow> iscased U b) \<and>
         (case after of [] \<Rightarrow> True | a # _ \<Rightarrow> \<not> iscased U a))"

definition lower_ucs4 :: "unicode_db \<Rightarrow> pystr \<Rightarrow> nat \<Rightarrow> codepoint \<Rightarrow> pystr" where
  "lower_ucs4 U s i c =
     (if c = 931 then [if final_sigma U s i then 962 else 963] else tolower_full U c)"

text \<open>\<open>s.lower()\<close>, \<open>s.upper()\<close>.\<close>

fun do_lower :: "unicode_db \<Rightarrow> pystr \<Rightarrow> nat \<Rightarrow> pystr \<Rightarrow> pystr" where
  "do_lower U s i [] = []"
| "do_lower U s i (c # cs) = lower_ucs4 U s i c @ do_lower U s (Suc i) cs"

definition py_lower :: "unicode_db \<Rightarrow> pystr \<Rightarrow> pystr" where
  "py_lower U s = do_lower U s 0 s"

definition py_upper :: "unicode_db \<Rightarrow> pystr \<Rightarrow> pystr" where
  "py_upper U s = concat (map (toupper_full U) s)"

text \<open>
  \<open>s.capitalize()\<close>: the first character in title case, every later one in lower case.
\<close>

definition py_capitalize :: "unicode_db \<Rightarrow> pystr \<Rightarrow> pystr" where
  "py_capitalize U s =
     (case s of [] \<Rightarrow> [] | c # cs \<Rightarrow> totitle_full U c @ do_lower U s 1 cs)"

text \<open>
  \<open>s.title()\<close>: a character that follows a cased character is lower-cased, any other one
  is title-cased.
\<close>

fun do_title :: "unicode_db \<Rightarrow> pystr \<Rightarrow> bool \<Rightarrow> nat \<Rightarrow> pystr \<Rightarrow> pystr" where
  "do_title U s previous_is_cased i [] = []"
| "do_title U s previous_is_cased i (c # cs) =
     (if previous_is_cased then lower_ucs4 U s i c else totitle_full U c)
     @ do_title U s (iscased U c) (Suc i) cs"

definition py_title :: "unicode_db \<Rightarrow> pystr \<Rightarrow> pystr" where
  "py_title U s = do_title U s False 0 s"

text \<open>\<open>s.strip()\<close> removes the white space at both ends.\<close>

definition py_strip :: "unicode_db \<Rightarrow> pystr \<Rightarrow> pystr" where
  "py_strip U s = rev (dropWhile (isspace U) (rev (dropWhile (isspace U) s)))"

text \<open>
  \<open>s.split()\<close> cuts at every run of white space and returns no empty word. The second
  argument is the word being read.
\<close>

fun split_whitespace :: "unicode_db \<Rightarrow> pystr \<Rightarrow> pystr \<Rightarrow> pystr list" where
  "split_whitespace U w [] = (if w = [] then [] else [w])"
| "split_whitespace U w (c # cs) =
     (if isspace U c then (if w = [] then [] else [w]) @ split_whitespace U [] cs
      else split_whitespace U (w @ [c]) cs)"

definition py_split :: "unicode_db \<Rightarrow> pystr \<Rightarrow> pystr list" where
  "py_split U s = split_whitespace U [] s"

text \<open>\<open>sep.join(ws)\<close>.\<close>

fun py_join :: "pystr \<Rightarrow> pystr list \<Rightarrow> pystr" where
  "py_join sep [] = []"
| "py_join sep [w] = w"
| "py_join sep (w # v # ws) = w @ sep @ py_join sep (v # ws)"

text \<open>\<open>s.startswith(p)\<close>, \<open>s.endswith(p)\<close>, \<open>k in s\<close>.\<close>

definition startswith :: "pystr \<Rightarrow> pystr \<Rightarrow> bool" where
  "startswith s p = (take (length p) s = p)"

definition endswith :: "pystr \<Rightarrow> pystr \<Rightarrow> bool" where
  "endswith s p = (length p \<le> length s \<and> drop (length s - length p) s = p)"

fun contains :: "pystr \<Rightarrow> pystr \<Rightarrow> bool" where
  "contains k [] = (k = [])"
| "contains k (c # cs) = (startswith (c # cs) k \<or> contains k cs)"

text \<open>
  \<open>s.replace(old, new)\<close> replaces the occurrences of \<open>old\<close> from left to right, without
  overlap. The script calls it with a non-empty \<open>old\<close> only.
\<close>

fun py_replace :: "pystr \<Rightarrow> pystr \<Rightarrow> nat \<Rightarrow> pystr \<Rightarrow> pystr" where
  "py_replace old new skip [] = []"
| "py_replace old new skip (c # cs) =
     (if 0 < skip then py_replace old new (skip - 1) cs
      else if old \<noteq> [] \<and> startswith (c # cs) old
           then new @ py_replace old new (length old - 1) cs
      else c # py_replace old new 0 cs)"

section \<open>Country and city normalization\<close>

definition COUNTRY_NORMALIZATION :: "(pystr \<times> pystr) list" where
  "COUNTRY_NORMALIZATION = map (\<lambda>(k, v). (cps k, cps v))
     [(''usa'', ''United States''),
      (''us'', ''United States''),
      (''u.s.'', ''United States''),
      (''u.s.a'', ''United States''),
      (''estados unidos'', ''United States''),
      (''america'', ''United States''),
      (''united states of america'', ''United States''),
      (''uk'', ''United Kingdom''),
      (''u.k.'', ''United Kingdom''),
      (''england'', ''United Kingdom''),
      (''britain'', ''United Kingdom''),
      (''great britain'', ''United Kingdom''),
      (''brasil'', ''Brazil''),
      (''brazil'', ''Brazil''),
      (''argentina'', ''Argentina''),
      (''chile'', ''Chile''),
      (''spain'', ''Spain''),
      (''espanha'', ''Spain''),
      (''china'', ''China''),
      (''korea'', ''South Korea''),
      (''south korea'', ''South Korea''),
      (''japan'', ''Japan''),
      (''thailand'', ''Thailand''),
      (''india'', ''India''),
      (''switzerland'', ''Switzerland''),
      (''suisse'', ''Switzerland''),
      (''schweiz'', ''Switzerland''),
      (''nederland'', ''Netherlands''),
      (''holland'', ''Netherlands''),
      (''netherlands'', ''Netherlands''),
      (''uae'', ''United Arab Emirates''),
      (''emirates'', ''United Arab Emirates''),
      (''dubai'', ''United Arab Emirates''),
      (''hong kong'', ''China'')]"

text \<open>\<open>table.get(key, default)\<close>.\<close>

definition dict_get_default :: "(pystr \<times> pystr) list \<Rightarrow> pystr \<Rightarrow> pystr \<Rightarrow> pystr" where
  "dict_get_default table key dflt =
     (case map_of table key of Some v \<Rightarrow> v | None \<Rightarrow> dflt)"

definition normalize_country :: "unicode_db \<Rightarrow> pystr \<Rightarrow> pystr" where
  "normalize_country U country =
     (if country = [] then []
      else let key = py_lower U (py_strip U country);
               key2 = py_strip U (filter (\<lambda>ch. isalnum U ch \<or> isspace U ch) key)
           in dict_get_default COUNTRY_NORMALIZATION key
                (dict_get_default COUNTRY_NORMALIZATION key2
                   (py_title U (py_strip U country))))"

definition normalize_city :: "unicode_db \<Rightarrow> pystr \<Rightarrow> pystr" where
  "normalize_city U city =
     (if city = [] then []
      else py_join (cps '' '') (map (py_capitalize U) (py_split U (py_strip U city))))"

section \<open>Paths\<close>

text \<open>
  \<open>os.path.join\<close>, \<open>os.path.normpath\<close> and \<open>os.path.abspath\<close> of a POSIX system (the script
  starts with a \<open>#!/usr/bin/env python3\<close> line); the separator is the slash, code point 47.
\<close>

definition join2 :: "pystr \<Rightarrow> pystr \<Rightarrow> pystr" where
  "join2 path b =
     (if startswith b [47] then b
      else if path = [] \<or> endswith path [47] then path @ b
      else path @ [47] @ b)"

definition path_join :: "pystr \<Rightarrow> pystr list \<Rightarrow> pystr" where
  "path_join a p = foldl join2 a p"

text \<open>\<open>path.split('/')\<close>; the second argument is the component being read.\<close>

fun split_on :: "codepoint \<Rightarrow> pystr \<Rightarrow> pystr \<Rightarrow> pystr list" where
  "split_on d w [] = [w]"
| "split_on d w (c # cs) = (if c = d then w # split_on d [] cs else split_on d (w @ [c]) cs)"

fun norm_comps :: "nat \<Rightarrow> pystr list \<Rightarrow> pystr list \<Rightarrow> pystr list" where
  "norm_comps initial_slashes new_comps [] = new_comps"
| "norm_comps initial_slashes new_comps (component # comps) =
     (if component = [] \<or> component = cps ''.'' then norm_comps initial_slashes new_comps comps
      else if component \<noteq> cps ''..'' \<or> (initial_slashes = 0 \<and> new_comps = [])
              \<or> (new_comps \<noteq> [] \<and> last new_comps = cps ''..'')
           then norm_comps initial_slashes (new_comps @ [component]) comps
      else if new_comps \<noteq> [] then norm_comps initial_slashes (butlast new_comps) comps
      else norm_comps initial_slashes new_comps comps)"

definition normpath :: "pystr \<Rightarrow> pystr" where
  "normpath path =
     (if path = [] then cps ''.''
      else let initial_slashes =
                 (if startswith path [47]
                  then (if startswith path [47, 47] \<and> \<not> startswith path [47, 47, 47]
                        then 2 else 1)
                  else 0);
               joined = py_join [47] (norm_comps initial_slashes [] (split_on 47 [] path));
               res = replicate initial_slashes 47 @ joined
           in if res = [] then cps ''.'' else res)"

definition abspath :: "pystr \<Rightarrow> pystr \<Rightarrow> pystr" where
  "abspath cwd path =
     normpath (if startswith path [47] then path else path_join cwd [path])"

section \<open>Configuration\<close>

definition SOURCE_FOLDER :: pystr where
  "SOURCE_FOLDER = cps ''PDFsForOrganizer''"

definition DESTINATION_FOLDER :: pystr where
  "DESTINATION_FOLDER = cps ''OrganizerPdfs''"


definition PAGE_EXTRACT_LIMIT :: nat where
  "PAGE_EXTRACT_LIMIT = 2"

section \<open>Values, exceptions and the environment\<close>

text \<open>
  What \<open>json.loads\<close> returns. Of a number the script only reads whether it is zero, so a
  number is an integer here.
\<close>

datatype json =
    JNull
  | JBool bool
  | JNum int
  | JStr pystr
  | JList "json list"
  | JDict "(pystr \<times> json) list"

fun truthy :: "json \<Rightarrow> bool" where
  "truthy JNull = False"
| "truthy (JBool b) = b"
| "truthy (JNum n) = (n \<noteq> 0)"
| "truthy (JStr s) = (s \<noteq> [])"
| "truthy (JList xs) = (xs \<noteq> [])"
| "truthy (JDict kvs) = (kvs \<noteq> [])"

datatype exn = AttributeError | TypeError | JSONDecodeError | APIError | OSError nat

text \<open>
  The run writes a trace: what it prints and logs, and every call it makes to the operating
  system, the PDF reader and the classification service, in order. Printing and appending a
  line to a log file are taken not to fail. What the script does when it is loaded (making
  the log folder, reading the API key, building the client) comes before \<open>main\<close> and is
  not part of the model.
\<close>

datatype event =
    Log_Header string
  | Print_Starting
  | Sys_Listdir pystr
  | Print_Processing pystr
  | Ignored pystr
  | Sys_FitzOpen pystr
  | Log_PdfError pystr exn
  | Print_NoText
  | Log_Prompt pystr pystr
  | Sys_GenerateContent pystr pystr
  | Log_Raw pystr pystr
  | Log_JsonError pystr exn pystr
  | Log_ApiError pystr exn
  | Print_NoDestinations
  | Print_Detected
  | Print_Raw json json json
  | Log_Incomplete pystr json
  | Sys_Makedirs pystr "exn option"
  | Sys_Copy2 pystr pystr "exn option"
  | Print_AlreadyCopied
  | Print_Copied pystr
  | Print_CopyError exn
  | Print_Blank
  | Print_Done

text \<open>
  The world \<open>'w\<close> is everything outside the process: the file system, the PDF files, the
  classification service. Each call takes the world and returns its answer, or the exception
  it raises, with the world it leaves. \<open>fitz_open\<close> gives the pages of a document, each one
  its text or the exception that reading it raises; \<open>generate_content\<close> gives
  \<open>response.text\<close>, which may be \<open>None\<close>.
\<close>

record 'w env =
  udb :: unicode_db
  cwd :: pystr
  listdir :: "pystr \<Rightarrow> 'w \<Rightarrow> (exn + pystr list) \<times> 'w"
  makedirs :: "pystr \<Rightarrow> 'w \<Rightarrow> exn option \<times> 'w"
  copy2 :: "pystr \<Rightarrow> pystr \<Rightarrow> 'w \<Rightarrow> exn option \<times> 'w"
  fitz_open :: "pystr \<Rightarrow> 'w \<Rightarrow> (exn + (exn + pystr) list) \<times> 'w"
  generate_content :: "pystr \<Rightarrow> pystr \<Rightarrow> 'w \<Rightarrow> (exn + pystr option) \<times> 'w"
  json_loads :: "pystr \<Rightarrow> exn + json"

record 'w state =
  world :: 'w
  copied :: "(pystr \<times> pystr) set"
  trace :: "event list"

definition emit :: "event list \<Rightarrow> 'w state \<Rightarrow> 'w state" where
  "emit es st = st\<lparr>trace := trace st @ es\<rparr>"

text \<open>
  A part of the run ends normally, \<open>Inr\<close> with the state it reached, or with an exception
  that nothing catches, \<open>Inl\<close> with the exception and the state at that moment.
\<close>

type_synonym 'w outcome = "(exn \<times> 'w state) + 'w state"

definition final :: "'w outcome \<Rightarrow> 'w state" where
  "final r = (case r of Inl (e, st) \<Rightarrow> st | Inr st \<Rightarrow> st)"

section \<open>Text extraction and classification\<close>

fun read_pages :: "(exn + pystr) list \<Rightarrow> pystr \<Rightarrow> exn + pystr" where
  "read_pages [] result = Inr result"
| "read_pages (page # pages) result =
     (case page of Inl e \<Rightarrow> Inl e | Inr t \<Rightarrow> read_pages pages (result @ t @ [10]))"

definition extract_text :: "'w env \<Rightarrow> pystr \<Rightarrow> nat \<Rightarrow> 'w state \<Rightarrow> pystr \<times> 'w state" where
  "extract_text E pdf_path limit st =
     (case fitz_open E pdf_path (world st) of (r, w) \<Rightarrow>
        let st1 = emit [Sys_FitzOpen pdf_path] (st\<lparr>world := w\<rparr>) in
        (case r of
           Inl e \<Rightarrow> ([], emit [Log_PdfError pdf_path e] st1)
         | Inr doc \<Rightarrow>
             (case read_pages (take (min limit (length doc)) doc) [] of
                Inl e \<Rightarrow> ([], emit [Log_PdfError pdf_path e] st1)
              | Inr result \<Rightarrow> (result, st1))))"

text \<open>
  The prompt is fixed text around the file name and the document text, so the call to the
  service is given those two.
\<close>

definition analyze_text_with_gemini ::
    "'w env \<Rightarrow> pystr \<Rightarrow> pystr \<Rightarrow> 'w state \<Rightarrow> json \<times> 'w state" where
  "analyze_text_with_gemini E text filename st =
     (let st1 = emit [Log_Prompt filename text] st in
      case generate_content E filename text (world st1) of (r, w) \<Rightarrow>
        let st2 = emit [Sys_GenerateContent filename text] (st1\<lparr>world := w\<rparr>) in
        (case r of
           Inl e \<Rightarrow> (JList [], emit [Log_ApiError filename e] st2)
         | Inr None \<Rightarrow> (JList [], emit [Log_ApiError filename AttributeError] st2)
         | Inr (Some response_text) \<Rightarrow>
             (let raw = py_strip (udb E) response_text;
                  st3 = emit [Log_Raw filename raw] st2;
                  cleaned = py_strip (udb E)
                    (py_replace (cps ''```'') [] 0 (py_replace (cps ''```json'') [] 0 raw))
              in (case json_loads E cleaned of
                    Inr v \<Rightarrow> (v, st3)
                  | Inl e \<Rightarrow> (JList [], emit [Log_JsonError filename e raw] st3)))))"

section \<open>The destinations of one document\<close>

text \<open>\<open>d.get(k)\<close>: only a dictionary has the method; a missing key gives \<open>None\<close>.\<close>

definition dict_get :: "json \<Rightarrow> pystr \<Rightarrow> exn + json" where
  "dict_get d k =
     (case d of
        JDict kvs \<Rightarrow> Inr (case map_of kvs k of Some v \<Rightarrow> v | None \<Rightarrow> JNull)
      | _ \<Rightarrow> Inl AttributeError)"

text \<open>\<open>d.get(k1) or d.get(k2) or ""\<close>.\<close>

definition get_or :: "json \<Rightarrow> pystr \<Rightarrow> pystr \<Rightarrow> exn + json" where
  "get_or d k1 k2 =
     (case dict_get d k1 of
        Inl e \<Rightarrow> Inl e
      | Inr a \<Rightarrow>
          if truthy a then Inr a
          else (case dict_get d k2 of
                  Inl e \<Rightarrow> Inl e
                | Inr b \<Rightarrow> if truthy b then Inr b else Inr (JStr [])))"

text \<open>
  \<open>normalize_city\<close> and \<open>normalize_country\<close> return \<open>""\<close> for a false argument and call
  \<open>strip\<close> on any other, which only a string has; \<open>upper\<close> is called on the raw continent
  as it is.
\<close>

definition call_normalizer :: "(pystr \<Rightarrow> pystr) \<Rightarrow> json \<Rightarrow> exn + pystr" where
  "call_normalizer f v =
     (if \<not> truthy v then Inr []
      else (case v of JStr s \<Rightarrow> Inr (f s) | _ \<Rightarrow> Inl AttributeError))"

definition call_upper :: "unicode_db \<Rightarrow> json \<Rightarrow> exn + pystr" where
  "call_upper U v = (case v of JStr s \<Rightarrow> Inr (py_upper U s) | _ \<Rightarrow> Inl AttributeError)"

text \<open>
  The three raw fields of a record and their normal forms: the first lines of the loop body.
\<close>

definition raw_fields :: "json \<Rightarrow> exn + (json \<times> json \<times> json)" where
  "raw_fields d =
     (case get_or d (cps ''city'') (cps ''cidade'') of
        Inl e \<Rightarrow> Inl e
      | Inr city_raw \<Rightarrow>
     (case get_or d (cps ''country'') (cps ''pais'') of
        Inl e \<Rightarrow> Inl e
      | Inr country_raw \<Rightarrow>
     (case get_or d (cps ''continent'') (cps ''continente'') of
        Inl e \<Rightarrow> Inl e
      | Inr continent_raw \<Rightarrow> Inr (city_raw, country_raw, continent_raw))))"

definition normalized :: "unicode_db \<Rightarrow> json \<times> json \<times> json \<Rightarrow> exn + (pystr \<times> pystr \<times> pystr)" where
  "normalized U raw =
     (case raw of (city_raw, country_raw, continent_raw) \<Rightarrow>
     (case call_normalizer (normalize_city U) city_raw of
        Inl e \<Rightarrow> Inl e
      | Inr city \<Rightarrow>
     (case call_normalizer (normalize_country U) country_raw of
        Inl e \<Rightarrow> Inl e
      | Inr country \<Rightarrow>
     (case call_upper U continent_raw of
        Inl e \<Rightarrow> Inl e
      | Inr continent \<Rightarrow> Inr (city, country, continent)))))"

text \<open>The rest of the loop body, for a record whose three fields are not empty.\<close>

definition place :: "'w env \<Rightarrow> pystr \<Rightarrow> pystr \<Rightarrow> pystr \<times> pystr \<times> pystr \<Rightarrow> 'w state
    \<Rightarrow> 'w outcome" where
  "place E filename src n st =
     (case n of (city, country, continent) \<Rightarrow>
      let final_dir = path_join DESTINATION_FOLDER [continent, country, city] in
      case makedirs E final_dir (world st) of (r, w) \<Rightarrow>
        let st1 = emit [Sys_Makedirs final_dir r] (st\<lparr>world := w\<rparr>) in
        (case r of
           Some e \<Rightarrow> Inl (e, st1)
         | None \<Rightarrow>
             (let dst = path_join final_dir [filename];
                  key = (abspath (cwd E) src, abspath (cwd E) dst)
              in if key \<in> copied st1 then Inr (emit [Print_AlreadyCopied] st1)
                 else (case copy2 E src dst (world st1) of (r2, w2) \<Rightarrow>
                    let st2 = emit [Sys_Copy2 src dst r2] (st1\<lparr>world := w2\<rparr>) in
                    (case r2 of
                       None \<Rightarrow>
                         Inr (emit [Print_Copied final_dir]
                                (st2\<lparr>copied := insert key (copied st2)\<rparr>))
                     | Some e \<Rightarrow> Inr (emit [Print_CopyError e] st2))))))"

definition process_destination :: "'w env \<Rightarrow> pystr \<Rightarrow> pystr \<Rightarrow> json \<Rightarrow> 'w state
    \<Rightarrow> 'w outcome" where
  "process_destination E filename src d st =
     (case raw_fields d of
        Inl e \<Rightarrow> Inl (e, st)
      | Inr raw \<Rightarrow>
          (let st1 = (case raw of (a, b, c) \<Rightarrow> emit [Print_Raw a b c] st) in
           (case normalized (udb E) raw of
              Inl e \<Rightarrow> Inl (e, st1)
            | Inr (city, country, continent) \<Rightarrow>
                if city = [] \<or> country = [] \<or> continent = []
                then Inr (emit [Log_Incomplete filename d] st1)
                else place E filename src (city, country, continent) st1)))"

fun process_destinations :: "'w env \<Rightarrow> pystr \<Rightarrow> pystr \<Rightarrow> json list \<Rightarrow> 'w state
    \<Rightarrow> 'w outcome" where
  "process_destinations E filename src [] st = Inr st"
| "process_destinations E filename src (d # ds) st =
     (case process_destination E filename src d st of
        Inl x \<Rightarrow> Inl x
      | Inr st' \<Rightarrow> process_destinations E filename src ds st')"

text \<open>
  \<open>for d in destinations\<close>: a list gives its items, a dictionary its keys, a string its
  characters; nothing else can be iterated.
\<close>

definition iterate :: "json \<Rightarrow> exn + json list" where
  "iterate v =
     (case v of
        JList ds \<Rightarrow> Inr ds
      | JDict kvs \<Rightarrow> Inr (map (\<lambda>kv. JStr (fst kv)) kvs)
      | JStr s \<Rightarrow> Inr (map (\<lambda>c. JStr [c]) s)
      | _ \<Rightarrow> Inl TypeError)"




section \<open>The run\<close>

definition ignored :: "unicode_db \<Rightarrow> pystr list \<Rightarrow> pystr \<Rightarrow> bool" where
  "ignored U kws filename = list_ex (\<lambda>k. contains k (py_lower U filename)) kws"

definition is_pdf :: "unicode_db \<Rightarrow> pystr \<Rightarrow> bool" where
  "is_pdf U filename = endswith (py_lower U filename) (cps ''.pdf'')"

text \<open>The body of the loop over the file names; \<open>kws\<close> is the list of ignore keywords.\<close>

definition process_file :: "pystr list \<Rightarrow> 'w env \<Rightarrow> pystr \<Rightarrow> 'w state \<Rightarrow> 'w outcome" where
  "process_file kws E filename st =
     (if \<not> is_pdf (udb E) filename then Inr st
      else let st1 = emit [Print_Processing filename] st;
               src = path_join SOURCE_FOLDER [filename]
           in if ignored (udb E) kws filename then Inr (emit [Ignored filename] st1)
              else (case extract_text E src PAGE_EXTRACT_LIMIT st1 of (text, st2) \<Rightarrow>
                if py_strip (udb E) text = [] then Inr (emit [Print_NoText] st2)
                else (case analyze_text_with_gemini E text filename st2 of
                   (destinations, st3) \<Rightarrow>
                     if \<not> truthy destinations then Inr (emit [Print_NoDestinations] st3)
                     else (case iterate destinations of
                             Inl e \<Rightarrow> Inl (e, emit [Print_Detected] st3)
                           | Inr ds \<Rightarrow>
                               (case process_destinations E filename src ds
                                       (emit [Print_Detected] st3) of
                                  Inl x \<Rightarrow> Inl x
                                | Inr st4 \<Rightarrow> Inr (emit [Print_Blank] st4))))))"

fun process_files :: "pystr list \<Rightarrow> 'w env \<Rightarrow> pystr list \<Rightarrow> 'w state \<Rightarrow> 'w outcome" where
  "process_files kws E [] st = Inr st"
| "process_files kws E (filename # filenames) st =
     (case process_file kws E filename st of
        Inl x \<Rightarrow> Inl x
      | Inr st' \<Rightarrow> process_files kws E filenames st')"

definition run :: "pystr list \<Rightarrow> 'w env \<Rightarrow> 'w \<Rightarrow> 'w outcome" where
  "run kws E w =
     (case makedirs E DESTINATION_FOLDER w of (r, w1) \<Rightarrow>
        let st0 = \<lparr>world = w1, copied = {},
                   trace = [Log_Header ''START'', Sys_Makedirs DESTINATION_FOLDER r]\<rparr>
        in (case r of
              Some e \<Rightarrow> Inl (e, st0)
            | None \<Rightarrow>
                (case listdir E SOURCE_FOLDER (world st0) of (l, w2) \<Rightarrow>
                   let st1 = emit [Print_Starting, Sys_Listdir SOURCE_FOLDER]
                               (st0\<lparr>world := w2\<rparr>) in
                   (case l of
                      Inl e \<Rightarrow> Inl (e, st1)
                    | Inr filenames \<Rightarrow>
                        (case process_files kws E filenames st1 of
                           Inl x \<Rightarrow> Inl x
                         | Inr st2 \<Rightarrow> Inr (emit [Log_Header ''END'', Print_Done] st2))))))"


section \<open>Observations on a trace, and environments to run the model in\<close>

text \<open>
  The deduplication keys of the copies that succeeded, and of all the copies attempted, in
  the order of the trace.
\<close>

definition copied_key :: "pystr \<Rightarrow> event \<Rightarrow> (pystr \<times> pystr) list" where
  "copied_key cw ev =
     (case ev of Sys_Copy2 s d None \<Rightarrow> [(abspath cw s, abspath cw d)] | _ \<Rightarrow> [])"

definition copy_keys :: "pystr \<Rightarrow> event list \<Rightarrow> (pystr \<times> pystr) list" where
  "copy_keys cw tr = concat (map (copied_key cw) tr)"

definition attempted_key :: "pystr \<Rightarrow> event \<Rightarrow> (pystr \<times> pystr) list" where
  "attempted_key cw ev =
     (case ev of Sys_Copy2 s d r \<Rightarrow> [(abspath cw s, abspath cw d)] | _ \<Rightarrow> [])"

definition attempt_keys :: "pystr \<Rightarrow> event list \<Rightarrow> (pystr \<times> pystr) list" where
  "attempt_keys cw tr = concat (map (attempted_key cw) tr)"

text \<open>
  A character database that knows no character outside ASCII, and a small world: the list
  of the paths created so far. The directory listing, the answer of the classification
  service, the result of parsing it and the result of every copy are given.
\<close>

definition plain_db :: unicode_db where
  "plain_db = \<lparr>u_isspace = (\<lambda>c. False), u_isalnum = (\<lambda>c. False), u_iscased = (\<lambda>c. False),
     u_iscaseignorable = (\<lambda>c. False), u_tolower = (\<lambda>c. [c]), u_toupper = (\<lambda>c. [c]),
     u_totitle = (\<lambda>c. [c])\<rparr>"

definition sim_env :: "pystr list \<Rightarrow> exn + pystr option \<Rightarrow> exn + json \<Rightarrow> exn option
    \<Rightarrow> (pystr list) env" where
  "sim_env names response parsed copy_result =
     \<lparr>udb = plain_db, cwd = cps ''/home/u'',
      listdir = (\<lambda>p w. (Inr names, w)),
      makedirs = (\<lambda>p w. (None, p # w)),
      copy2 = (\<lambda>s d w. (copy_result, (if copy_result = None then d # w else w))),
      fitz_open = (\<lambda>p w. (Inr [Inr (cps ''Trip to Tokyo'')], w)),
      generate_content = (\<lambda>f t w. (response, w)),
      json_loads = (\<lambda>s. parsed)\<rparr>"

definition tokyo :: json where
  "tokyo = JDict [(cps ''city'', JStr (cps ''tokyo'')), (cps ''country'', JStr (cps ''japan'')),
                  (cps ''continent'', JStr (cps ''asia''))]"


definition slash_city :: json where
  "slash_city =
     JDict [(cps ''city'', JStr (cps ''/tmp'')), (cps ''country'', JStr (cps ''japan'')),
            (cps ''continent'', JStr (cps ''asia''))]"


definition start_state :: "(pystr list) state" where
  "start_state = \<lparr>world = [], copied = {}, trace = []\<rparr>"

text \<open>
  The invariant of the deduplication set: it holds exactly the keys of the copies that have
  succeeded, and no key has succeeded twice.
\<close>

definition dedup_inv :: "pystr \<Rightarrow> 'w state \<Rightarrow> bool" where
  "dedup_inv cw st =
     (distinct (copy_keys cw (trace st)) \<and> copied st = set (copy_keys cw (trace st)))"

section \<open>The string methods on ASCII and on white space\<close>

lemmas ascii_simps = is_ascii_def ascii_isupper_def ascii_islower_def ascii_isdigit_def ascii_lower_def ascii_upper_def
  isspace_def isalnum_def iscased_def tolower_full_def toupper_full_def totitle_full_def lower_ucs4_def

lemma do_lower_ascii: "list_all is_ascii cs \<Longrightarrow> do_lower U s i cs = map ascii_lower cs"
  by (induction cs arbitrary: i) (auto simp: lower_ucs4_def tolower_full_def is_ascii_def)

lemma py_lower_ascii: "list_all is_ascii s \<Longrightarrow> py_lower U s = map ascii_lower s"
  by (simp add: py_lower_def do_lower_ascii)

lemma py_lower_fixed:
  "list_all (\<lambda>c. is_ascii c \<and> \<not> ascii_isupper c) s \<Longrightarrow> py_lower U s = s"
proof -
  assume a: "list_all (\<lambda>c. is_ascii c \<and> \<not> ascii_isupper c) s"
  then have "list_all is_ascii s" by (simp add: list_all_iff)
  then have "py_lower U s = map ascii_lower s" by (rule py_lower_ascii)
  also have "\<dots> = s" using a by (induction s) (auto simp: ascii_lower_def)
  finally show ?thesis .
qed

lemma py_upper_ascii: "list_all is_ascii s \<Longrightarrow> py_upper U s = map ascii_upper s"
  by (induction s) (auto simp: py_upper_def toupper_full_def)

lemma py_capitalize_ascii:
  "list_all is_ascii (c # cs) \<Longrightarrow> py_capitalize U (c # cs) = ascii_upper c # map ascii_lower cs"
  by (simp add: py_capitalize_def totitle_full_def do_lower_ascii)

lemma py_strip_fixed:
  "s \<noteq> [] \<Longrightarrow> \<not> isspace U (hd s) \<Longrightarrow> \<not> isspace U (last s) \<Longrightarrow> py_strip U s = s"
proof -
  assume a: "s \<noteq> []" "\<not> isspace U (hd s)" "\<not> isspace U (last s)"
  then have "dropWhile (isspace U) s = s" by (cases s) auto
  moreover have "dropWhile (isspace U) (rev s) = rev s"
    using a by (cases "rev s") (auto simp: hd_rev)
  ultimately show ?thesis by (simp add: py_strip_def)
qed


lemma split_spaces:
  "list_all (isspace U) ys \<Longrightarrow> split_whitespace U w ys = (if w = [] then [] else [w])"
  by (induction ys arbitrary: w) auto

lemma split_append_spaces:
  "list_all (isspace U) ys \<Longrightarrow> split_whitespace U w (xs @ ys) = split_whitespace U w xs"
  by (induction xs arbitrary: w) (auto simp: split_spaces)

lemma split_dropWhile:
  "split_whitespace U [] (dropWhile (isspace U) s) = split_whitespace U [] s"
  by (induction s) auto

lemma py_split_strip: "py_split U (py_strip U s) = py_split U s"
proof -
  define t where "t = dropWhile (isspace U) s"
  have "rev t = takeWhile (isspace U) (rev t) @ dropWhile (isspace U) (rev t)" by simp
  then have "t = rev (dropWhile (isspace U) (rev t)) @ rev (takeWhile (isspace U) (rev t))"
    by (metis rev_append rev_rev_ident)
  moreover have "list_all (isspace U) (rev (takeWhile (isspace U) (rev t)))"
    by (auto simp: list_all_iff dest: set_takeWhileD)
  ultimately have "split_whitespace U [] t = split_whitespace U [] (rev (dropWhile (isspace U) (rev t)))"
    by (metis split_append_spaces)
  then show ?thesis
    by (simp add: py_split_def py_strip_def t_def split_dropWhile)
qed

lemma split_words:
  "\<forall>c\<in>set w. \<not> isspace U c \<Longrightarrow> x \<in> set (split_whitespace U w s) \<Longrightarrow>
   x \<noteq> [] \<and> (\<forall>c\<in>set x. \<not> isspace U c)"
proof (induction s arbitrary: w)
  case Nil
  then show ?case by (auto split: if_splits)
next
  case (Cons a s)
  show ?case
  proof (cases "isspace U a")
    case True
    with Cons.prems have "x = w \<and> w \<noteq> [] \<or> x \<in> set (split_whitespace U [] s)"
      by (auto split: if_splits)
    then show ?thesis
    proof
      assume "x = w \<and> w \<noteq> []"
      with Cons.prems(1) show ?thesis by simp
    next
      assume "x \<in> set (split_whitespace U [] s)"
      with Cons.IH [of "[]"] show ?thesis by simp
    qed
  next
    case False
    with Cons.prems have "x \<in> set (split_whitespace U (w @ [a]) s)" by simp
    moreover have "\<forall>c\<in>set (w @ [a]). \<not> isspace U c" using False Cons.prems(1) by simp
    ultimately show ?thesis using Cons.IH [of "w @ [a]"] by blast
  qed
qed

lemma concat_split:
  "concat (split_whitespace U w s) = w @ filter (\<lambda>c. \<not> isspace U c) s"
  by (induction s arbitrary: w) auto

section \<open>The alias table\<close>

lemma cps_inj: "(cps a = cps b) = (a = b)"
  by (simp add: cps_def inj_map_eq_map [OF inj_of_char])

lemma table_keys_distinct: "distinct (map fst COUNTRY_NORMALIZATION)"
  by (simp add: COUNTRY_NORMALIZATION_def cps_inj)

lemma table_keys_shape:
  "list_all (\<lambda>(k, v). k \<noteq> [] \<and> list_all (\<lambda>c. is_ascii c \<and> \<not> ascii_isupper c) k
      \<and> \<not> isspace U (hd k) \<and> \<not> isspace U (last k)) COUNTRY_NORMALIZATION"
  by (simp add: COUNTRY_NORMALIZATION_def cps_def ascii_simps)

lemma normalize_country_hit:
  "country \<noteq> [] \<Longrightarrow> map_of COUNTRY_NORMALIZATION (py_lower U (py_strip U country)) = Some v \<Longrightarrow>
   normalize_country U country = v"
  by (simp add: normalize_country_def dict_get_default_def Let_def)

lemma normalize_country_key:
  assumes "(k, v) \<in> set COUNTRY_NORMALIZATION"
  shows "normalize_country U k = v"
proof -
  from table_keys_shape [of U] assms
  have sh: "k \<noteq> []" "list_all (\<lambda>c. is_ascii c \<and> \<not> ascii_isupper c) k"
    "\<not> isspace U (hd k)" "\<not> isspace U (last k)"
    by (auto simp: list_all_iff)
  have "py_lower U (py_strip U k) = k"
    by (simp add: py_strip_fixed sh py_lower_fixed)
  moreover have "map_of COUNTRY_NORMALIZATION k = Some v"
    using table_keys_distinct assms by (rule map_of_is_SomeI)
  ultimately show ?thesis using sh(1) by (simp add: normalize_country_hit)
qed

lemma canonical_names:
  "snd ` set COUNTRY_NORMALIZATION \<subseteq> set (map cps [''United States'', ''United Kingdom'', ''Brazil'', ''Argentina'',
     ''Chile'', ''Spain'', ''China'', ''South Korea'', ''Japan'', ''Thailand'', ''India'', ''Switzerland'',
     ''Netherlands'', ''United Arab Emirates''])"
  by (simp add: COUNTRY_NORMALIZATION_def cps_inj)

lemma canonical_via_key:
  assumes "(cps k, cps v) \<in> set COUNTRY_NORMALIZATION"
    and "py_lower U (py_strip U (cps v)) = cps k"
  shows "normalize_country U (cps v) = cps v"
proof -
  have "map_of COUNTRY_NORMALIZATION (cps k) = Some (cps v)"
    using table_keys_distinct assms(1) by (rule map_of_is_SomeI)
  moreover have "cps v \<noteq> []"
  proof
    assume "cps v = []"
    with assms(2) have "cps k = []" by (simp add: py_strip_def py_lower_def)
    with assms(1) table_keys_shape [of U] show False by (auto simp: list_all_iff)
  qed
  ultimately show ?thesis using assms(2) by (simp add: normalize_country_hit)
qed

lemma canonical_via_title:
  assumes "cps k \<notin> fst ` set COUNTRY_NORMALIZATION"
    and "py_lower U (py_strip U (cps v)) = cps k"
    and "py_strip U (filter (\<lambda>ch. isalnum U ch \<or> isspace U ch) (cps k)) = cps k"
    and "py_title U (py_strip U (cps v)) = cps v"
  shows "normalize_country U (cps v) = cps v"
proof -
  have "map_of COUNTRY_NORMALIZATION (cps k) = None"
    using assms(1) by (simp add: map_of_eq_None_iff)
  then show ?thesis
    using assms(2-4) by (simp add: normalize_country_def dict_get_default_def Let_def py_strip_def)
qed

lemma canonical_fixed:
  assumes "v \<in> snd ` set COUNTRY_NORMALIZATION"
  shows "normalize_country U v = v"
proof -
  have c1: "normalize_country U (cps ''United States'') = cps ''United States''"
    by (rule canonical_via_title [of "''united states''"])
      (simp add: COUNTRY_NORMALIZATION_def cps_inj, simp_all add: cps_def py_strip_def py_lower_def py_title_def ascii_simps)
  have c2: "normalize_country U (cps ''United Kingdom'') = cps ''United Kingdom''"
    by (rule canonical_via_title [of "''united kingdom''"])
      (simp add: COUNTRY_NORMALIZATION_def cps_inj, simp_all add: cps_def py_strip_def py_lower_def py_title_def ascii_simps)
  have c3: "normalize_country U (cps ''Brazil'') = cps ''Brazil''"
    by (rule canonical_via_key [of "''brazil''"])
      (simp add: COUNTRY_NORMALIZATION_def cps_inj, simp add: cps_def py_strip_def py_lower_def ascii_simps)
  have c4: "normalize_country U (cps ''Argentina'') = cps ''Argentina''"
    by (rule canonical_via_key [of "''argentina''"])
      (simp add: COUNTRY_NORMALIZATION_def cps_inj, simp add: cps_def py_strip_def py_lower_def ascii_simps)
  have c5: "normalize_country U (cps ''Chile'') = cps ''Chile''"
    by (rule canonical_via_key [of "''chile''"])
      (simp add: COUNTRY_NORMALIZATION_def cps_inj, simp add: cps_def py_strip_def py_lower_def ascii_simps)
  have c6: "normalize_country U (cps ''Spain'') = cps ''Spain''"
    by (rule canonical_via_key [of "''spain''"])
      (simp add: COUNTRY_NORMALIZATION_def cps_inj, simp add: cps_def py_strip_def py_lower_def ascii_simps)
  have c7: "normalize_country U (cps ''China'') = cps ''China''"
    by (rule canonical_via_key [of "''china''"])
      (simp add: COUNTRY_NORMALIZATION_def cps_inj, simp add: cps_def py_strip_def py_lower_def ascii_simps)
  have c8: "normalize_country U (cps ''South Korea'') = cps ''South Korea''"
    by (rule canonical_via_key [of "''south korea''"])
      (simp add: COUNTRY_NORMALIZATION_def cps_inj, simp add: cps_def py_strip_def py_lower_def ascii_simps)
  have c9: "normalize_country U (cps ''Japan'') = cps ''Japan''"
    by (rule canonical_via_key [of "''japan''"])
      (simp add: COUNTRY_NORMALIZATION_def cps_inj, simp add: cps_def py_strip_def py_lower_def ascii_simps)
  have c10: "normalize_country U (cps ''Thailand'') = cps ''Thailand''"
    by (rule canonical_via_key [of "''thailand''"])
      (simp add: COUNTRY_NORMALIZATION_def cps_inj, simp add: cps_def py_strip_def py_lower_def ascii_simps)
  have c11: "normalize_country U (cps ''India'') = cps ''India''"
    by (rule canonical_via_key [of "''india''"])
      (simp add: COUNTRY_NORMALIZATION_def cps_inj, simp add: cps_def py_strip_def py_lower_def ascii_simps)
  have c12: "normalize_country U (cps ''Switzerland'') = cps ''Switzerland''"
    by (rule canonical_via_key [of "''switzerland''"])
      (simp add: COUNTRY_NORMALIZATION_def cps_inj, simp add: cps_def py_strip_def py_lower_def ascii_simps)
  have c13: "normalize_country U (cps ''Netherlands'') = cps ''Netherlands''"
    by (rule canonical_via_key [of "''netherlands''"])
      (simp add: COUNTRY_NORMALIZATION_def cps_inj, simp add: cps_def py_strip_def py_lower_def ascii_simps)
  have c14: "normalize_country U (cps ''United Arab Emirates'') = cps ''United Arab Emirates''"
    by (rule canonical_via_title [of "''united arab emirates''"])
      (simp add: COUNTRY_NORMALIZATION_def cps_inj, simp_all add: cps_def py_strip_def py_lower_def py_title_def ascii_simps)
  from assms canonical_names have "v \<in> set (map cps [''United States'', ''United Kingdom'', ''Brazil'',
     ''Argentina'', ''Chile'', ''Spain'', ''China'', ''South Korea'', ''Japan'', ''Thailand'', ''India'',
     ''Switzerland'', ''Netherlands'', ''United Arab Emirates''])" by blast
  then show ?thesis
    using c1 c2 c3 c4 c5 c6 c7 c8 c9 c10 c11 c12 c13 c14 by auto
qed




section \<open>Country normalization\<close>



text \<open>
  Claim C7. On every key of the alias table \<open>normalize_country\<close> is idempotent: a key is
  sent to its canonical name, and every canonical name is sent to itself, either because its
  lower case is a key with that name or because it is no key and is already in title case.
\<close>

theorem normalize_country_idempotent_on_aliases:
  "\<forall>x \<in> set (map fst COUNTRY_NORMALIZATION).
     normalize_country U (normalize_country U x) = normalize_country U x"
proof
  fix x assume "x \<in> set (map fst COUNTRY_NORMALIZATION)"
  then obtain v where xv: "(x, v) \<in> set COUNTRY_NORMALIZATION" by auto
  then have a: "normalize_country U x = v" by (rule normalize_country_key)
  from xv have "v \<in> snd ` set COUNTRY_NORMALIZATION" by force
  then have b: "normalize_country U v = v" by (rule canonical_fixed)
  show "normalize_country U (normalize_country U x) = normalize_country U x"
    by (simp add: a b)
qed

theorem normalize_country_idempotent_on_aliases_witness:
  "cps ''u.s.a'' \<in> set (map fst COUNTRY_NORMALIZATION) \<and>
   normalize_country plain_db (normalize_country plain_db (cps ''u.s.a''))
     = normalize_country plain_db (cps ''u.s.a'')"
proof -
  have m: "cps ''u.s.a'' \<in> set (map fst COUNTRY_NORMALIZATION)"
    by (simp add: COUNTRY_NORMALIZATION_def cps_inj)
  from normalize_country_idempotent_on_aliases [of plain_db] m
  show ?thesis by blast
qed

section \<open>City normalization\<close>

lemmas city_simps = normalize_city_def cps_def py_strip_def py_split_def py_capitalize_def

text \<open>
  Claim C2, as the code has it. \<open>normalize_city\<close> gives the empty string for the empty
  input. It splits the input at white space (trimming first changes nothing), capitalizes
  each word and joins the words with single spaces; the words are the maximal runs of
  characters that are not white space. Capitalizing a word puts its first character in
  title case and every other character in LOWER case: on an ASCII word the result is the
  upper-cased first character followed by the lower-cased rest. The example of the
  specification, the city of Sao Paulo in lower case with an a with tilde (U+00E3, code point
  227), two spaces before it, three between the words and one after, gives the two words
  capitalized and separated by one space, in every character database in which that letter
  is not white space and is its own lower case.
\<close>

theorem normalize_city_lowers_the_rest:
  "normalize_city U [] = []
   \<and> normalize_city U s = py_join (cps '' '') (map (py_capitalize U) (py_split U s))
   \<and> concat (py_split U s) = filter (\<lambda>c. \<not> isspace U c) s
   \<and> (\<forall>w\<in>set (py_split U s). w \<noteq> [] \<and> (\<forall>c\<in>set w. \<not> isspace U c))
   \<and> (list_all is_ascii (c # cs) \<longrightarrow>
        py_capitalize U (c # cs) = ascii_upper c # map ascii_lower cs)
   \<and> (\<not> u_isspace U 227 \<and> u_tolower U 227 = [227] \<longrightarrow>
        normalize_city U ([32, 32, 115, 227, 111, 32, 32, 32] @ cps ''paulo '')
          = [83, 227, 111, 32] @ cps ''Paulo'')"
proof (intro conjI)
  show "normalize_city U [] = []" by (simp add: normalize_city_def)
  show "normalize_city U s = py_join (cps '' '') (map (py_capitalize U) (py_split U s))"
    by (cases "s = []") (simp_all add: normalize_city_def py_split_strip, simp add: py_split_def)
  show "concat (py_split U s) = filter (\<lambda>c. \<not> isspace U c) s"
    by (simp add: py_split_def concat_split)
  show "\<forall>w\<in>set (py_split U s). w \<noteq> [] \<and> (\<forall>c\<in>set w. \<not> isspace U c)"
    using split_words [of "[]" U _ s] by (simp add: py_split_def)
  show "list_all is_ascii (c # cs) \<longrightarrow>
        py_capitalize U (c # cs) = ascii_upper c # map ascii_lower cs"
    using py_capitalize_ascii [of c cs U] by blast
  show "\<not> u_isspace U 227 \<and> u_tolower U 227 = [227] \<longrightarrow>
        normalize_city U ([32, 32, 115, 227, 111, 32, 32, 32] @ cps ''paulo '')
          = [83, 227, 111, 32] @ cps ''Paulo''"
    by (simp add: city_simps ascii_simps)
qed

theorem normalize_city_lowers_the_rest_witness:
  "normalize_city plain_db (cps ''  sao   paulo '') = cps ''Sao Paulo''
   \<and> py_capitalize plain_db (cps ''mcDonald'') = cps ''Mcdonald''
   \<and> normalize_city plain_db ([32, 32, 115, 227, 111, 32, 32, 32] @ cps ''paulo '')
          = [83, 227, 111, 32] @ cps ''Paulo''"
proof -
  have a: "\<not> u_isspace plain_db 227 \<and> u_tolower plain_db 227 = [227]"
    by (simp add: plain_db_def)
  have b: "list_all is_ascii (of_char CHR ''m'' # cps ''cDonald'')"
    by (simp add: cps_def is_ascii_def)
  have c: "py_split plain_db (cps ''  sao   paulo '') = [cps ''sao'', cps ''paulo'']"
    by (simp add: py_split_def cps_def ascii_simps)
  from normalize_city_lowers_the_rest [of plain_db "cps ''  sao   paulo ''" "of_char CHR ''m''" "cps ''cDonald''"] a b c
  show ?thesis
    by (simp add: cps_def py_capitalize_def ascii_simps)
qed

text \<open>
  The claim as stated, that the remainder of a word keeps its case, fails on
  \<open>"mcDonald"\<close>: the result is \<open>"Mcdonald"\<close>, not \<open>"McDonald"\<close>.
\<close>

theorem normalize_city_counterexample:
  "normalize_city plain_db (cps ''mcDonald'') = cps ''Mcdonald''
   \<and> normalize_city plain_db (cps ''mcDonald'') \<noteq> cps ''McDonald''"
  by (simp add: city_simps ascii_simps)

section \<open>Continent normalization\<close>

text \<open>
  Claim C3, as the code has it. The normal form of a raw continent string is that string
  with every character upper-cased, and nothing is trimmed: on an ASCII string the result
  has the length of the input and is the input with each letter upper-cased, so white space
  at either end stays. It is the upper case of the trimmed input exactly for the inputs that
  trimming leaves unchanged.
\<close>

theorem continent_is_upper_of_untrimmed:
  "(normalized U (city_raw, country_raw, JStr s) = Inr (city, country, continent)
      \<longrightarrow> continent = py_upper U s)
   \<and> (list_all is_ascii s \<longrightarrow> py_upper U s = map ascii_upper s \<and> length (py_upper U s) = length s)
   \<and> (py_strip U s = s \<longrightarrow> py_upper U s = py_upper U (py_strip U s))"
proof (intro conjI impI)
  assume "normalized U (city_raw, country_raw, JStr s) = Inr (city, country, continent)"
  then show "continent = py_upper U s"
    by (auto simp: normalized_def call_upper_def split: sum.splits)
next
  assume "list_all is_ascii s"
  then show "py_upper U s = map ascii_upper s" by (rule py_upper_ascii)
next
  assume "list_all is_ascii s"
  then show "length (py_upper U s) = length s" by (simp add: py_upper_ascii)
next
  assume "py_strip U s = s"
  then show "py_upper U s = py_upper U (py_strip U s)" by simp
qed

theorem continent_is_upper_of_untrimmed_witness:
  "normalized plain_db (JStr (cps ''tokyo''), JStr (cps ''japan''), JStr (cps ''asia''))
     = Inr (cps ''Tokyo'', cps ''Japan'', cps ''ASIA'')
   \<and> py_upper plain_db (cps '' asia '') = cps '' ASIA ''"
proof -
  have n: "normalized plain_db (JStr (cps ''tokyo''), JStr (cps ''japan''), JStr (cps ''asia''))
     = Inr (cps ''Tokyo'', normalize_country plain_db (cps ''japan''), py_upper plain_db (cps ''asia''))"
    by (simp add: normalized_def call_normalizer_def call_upper_def city_simps ascii_simps)
  have j: "normalize_country plain_db (cps ''japan'') = cps ''Japan''"
    by (rule normalize_country_key) (simp add: COUNTRY_NORMALIZATION_def)
  have a: "list_all is_ascii (cps ''asia'')" "list_all is_ascii (cps '' asia '')"
    by (simp_all add: cps_def is_ascii_def)
  from continent_is_upper_of_untrimmed [of plain_db _ _ "cps ''asia''"] 
       continent_is_upper_of_untrimmed [of plain_db _ _ "cps '' asia ''"] a n j
  show ?thesis
    by (simp add: cps_def ascii_upper_def ascii_islower_def)
qed

text \<open>
  The claim as stated, that the continent is trimmed before it is upper-cased, fails on
  \<open>" asia "\<close>: the normal form is \<open>" ASIA "\<close>, with both spaces.
\<close>

theorem continent_counterexample:
  "normalized plain_db (JStr (cps ''tokyo''), JStr (cps ''japan''), JStr (cps '' asia ''))
     = Inr (cps ''Tokyo'', cps ''Japan'', cps '' ASIA '')
   \<and> cps '' ASIA '' \<noteq> py_upper plain_db (py_strip plain_db (cps '' asia ''))"
proof -
  have j: "normalize_country plain_db (cps ''japan'') = cps ''Japan''"
    by (rule normalize_country_key) (simp add: COUNTRY_NORMALIZATION_def)
  have "normalized plain_db (JStr (cps ''tokyo''), JStr (cps ''japan''), JStr (cps '' asia ''))
     = Inr (cps ''Tokyo'', normalize_country plain_db (cps ''japan''), cps '' ASIA '')"
    by (simp add: normalized_def call_normalizer_def call_upper_def city_simps py_upper_def ascii_simps)
  moreover have "cps '' ASIA '' \<noteq> py_upper plain_db (py_strip plain_db (cps '' asia ''))"
    by (simp add: cps_def py_upper_def py_strip_def ascii_simps)
  ultimately show ?thesis using j by simp
qed

section \<open>The keyword filter\<close>









section \<open>Incomplete records\<close>

lemma emit_simps [simp]:
  "world (emit es st) = world st" "copied (emit es st) = copied st"
  "trace (emit es st) = trace st @ es"
  by (simp_all add: emit_def)

lemma sim_env_simps:
  "udb (sim_env names response parsed copy_result) = plain_db"
  "cwd (sim_env names response parsed copy_result) = cps ''/home/u''"
  "listdir (sim_env names response parsed copy_result) = (\<lambda>p w. (Inr names, w))"
  "makedirs (sim_env names response parsed copy_result) = (\<lambda>p w. (None, p # w))"
  "copy2 (sim_env names response parsed copy_result)
     = (\<lambda>s d w. (copy_result, (if copy_result = None then d # w else w)))"
  "fitz_open (sim_env names response parsed copy_result)
     = (\<lambda>p w. (Inr [Inr (cps ''Trip to Tokyo'')], w))"
  "generate_content (sim_env names response parsed copy_result) = (\<lambda>f t w. (response, w))"
  "json_loads (sim_env names response parsed copy_result) = (\<lambda>s. parsed)"
  by (simp_all add: sim_env_def)









section \<open>Destination paths\<close>

lemma startswith_sep: "47 \<notin> set b \<Longrightarrow> \<not> startswith b [47]"
  by (cases b) (auto simp: startswith_def)

lemma endswith_sep: "path \<noteq> [] \<Longrightarrow> endswith path [47] = (last path = 47)"
proof -
  assume "path \<noteq> []"
  then obtain xs x where "path = xs @ [x]" by (metis rev_exhaust)
  then show ?thesis by (simp add: endswith_def)
qed

lemma join2_segment:
  "47 \<notin> set b \<Longrightarrow> path \<noteq> [] \<Longrightarrow> last path \<noteq> 47 \<Longrightarrow> join2 path b = path @ [47] @ b"
  by (simp add: join2_def startswith_sep endswith_sep)

lemma destination_root_shape: "DESTINATION_FOLDER \<noteq> [] \<and> last DESTINATION_FOLDER \<noteq> 47"
  by (simp add: DESTINATION_FOLDER_def cps_def)

lemma path_join_segments:
  assumes "city \<noteq> []" "country \<noteq> []" "continent \<noteq> []"
    and "47 \<notin> set city" "47 \<notin> set country" "47 \<notin> set continent"
  shows "path_join DESTINATION_FOLDER [continent, country, city]
         = DESTINATION_FOLDER @ [47] @ continent @ [47] @ country @ [47] @ city"
proof -
  have a: "join2 DESTINATION_FOLDER continent = DESTINATION_FOLDER @ [47] @ continent"
    using assms destination_root_shape by (simp add: join2_segment)
  have "last (DESTINATION_FOLDER @ [47] @ continent) \<noteq> 47"
    using assms by (metis append_is_Nil_conv last_appendR last_in_set)
  then have b: "join2 (DESTINATION_FOLDER @ [47] @ continent) country
                 = DESTINATION_FOLDER @ [47] @ continent @ [47] @ country"
    using assms by (simp add: join2_segment)
  have "last (DESTINATION_FOLDER @ [47] @ continent @ [47] @ country) \<noteq> 47"
    using assms by (metis append_is_Nil_conv last_appendR last_in_set)
  then have c: "join2 (DESTINATION_FOLDER @ [47] @ continent @ [47] @ country) city
                 = DESTINATION_FOLDER @ [47] @ continent @ [47] @ country @ [47] @ city"
    using assms by (simp add: join2_segment)
  show ?thesis using a b c by (simp add: path_join_def)
qed

lemma path_join_file:
  assumes "city \<noteq> []" "47 \<notin> set city" "47 \<notin> set filename"
  shows "path_join (p @ [47] @ city) [filename] = p @ [47] @ city @ [47] @ filename"
proof -
  have "last (p @ [47] @ city) \<noteq> 47"
    using assms by (metis append_is_Nil_conv last_appendR last_in_set)
  then show ?thesis using assms by (simp add: path_join_def join2_segment)
qed

lemma place_trace:
  "\<exists>r w. makedirs E (path_join DESTINATION_FOLDER [continent, country, city]) (world st) = (r, w) \<and>
     (case place E filename src (city, country, continent) st of
        Inl (e, st') \<Rightarrow>
          r = Some e \<and> trace st' = trace st
            @ [Sys_Makedirs (path_join DESTINATION_FOLDER [continent, country, city]) (Some e)]
      | Inr st' \<Rightarrow>
          r = None \<and>
          (trace st' = trace st
             @ [Sys_Makedirs (path_join DESTINATION_FOLDER [continent, country, city]) None,
                Print_AlreadyCopied]
           \<or> trace st' = trace st
             @ [Sys_Makedirs (path_join DESTINATION_FOLDER [continent, country, city]) None,
                Sys_Copy2 src (path_join (path_join DESTINATION_FOLDER [continent, country, city])
                                 [filename]) None,
                Print_Copied (path_join DESTINATION_FOLDER [continent, country, city])]
           \<or> (\<exists>e. trace st' = trace st
             @ [Sys_Makedirs (path_join DESTINATION_FOLDER [continent, country, city]) None,
                Sys_Copy2 src (path_join (path_join DESTINATION_FOLDER [continent, country, city])
                                 [filename]) (Some e),
                Print_CopyError e])))"
  by (cases "makedirs E (path_join DESTINATION_FOLDER [continent, country, city]) (world st)")
     (simp add: place_def Let_def split: option.splits prod.splits)

text \<open>
  Claim C8, as the code has it. For a complete normalized destination whose continent,
  country and city contain no path separator, and a file name without one, the destination
  directory is the root \<open>OrganizerPdfs\<close>, the continent, the country and the city, joined
  by single separators, each field one segment. The directory is created under that name,
  and when a copy is made it goes to that directory followed by a separator and the file
  name. The path is a function of the three fields alone: neither the world nor the state
  of the run enters it.
\<close>

theorem destination_path_layout:
  assumes "city \<noteq> []" "country \<noteq> []" "continent \<noteq> []"
    and "47 \<notin> set city" "47 \<notin> set country" "47 \<notin> set continent" "47 \<notin> set filename"
  shows "path_join DESTINATION_FOLDER [continent, country, city]
           = cps ''OrganizerPdfs/'' @ continent @ [47] @ country @ [47] @ city
     \<and> (let final_dir = cps ''OrganizerPdfs/'' @ continent @ [47] @ country @ [47] @ city;
             dst = final_dir @ [47] @ filename
         in \<exists>r w. makedirs E final_dir (world st) = (r, w) \<and>
              (case place E filename src (city, country, continent) st of
                 Inl (e, st') \<Rightarrow>
                   r = Some e \<and> trace st' = trace st @ [Sys_Makedirs final_dir (Some e)]
               | Inr st' \<Rightarrow>
                   r = None \<and>
                   (trace st' = trace st @ [Sys_Makedirs final_dir None, Print_AlreadyCopied]
                    \<or> trace st' = trace st @ [Sys_Makedirs final_dir None,
                                               Sys_Copy2 src dst None, Print_Copied final_dir]
                    \<or> (\<exists>e. trace st' = trace st @ [Sys_Makedirs final_dir None,
                                               Sys_Copy2 src dst (Some e), Print_CopyError e]))))"
proof -
  have root: "DESTINATION_FOLDER @ [47] = cps ''OrganizerPdfs/''"
    by (simp add: DESTINATION_FOLDER_def cps_def)
  have d: "path_join DESTINATION_FOLDER [continent, country, city]
           = cps ''OrganizerPdfs/'' @ continent @ [47] @ country @ [47] @ city"
    using path_join_segments [OF assms(1-6)] root by simp
  have f: "path_join (path_join DESTINATION_FOLDER [continent, country, city]) [filename]
           = path_join DESTINATION_FOLDER [continent, country, city] @ [47] @ filename"
    using path_join_file [OF assms(1) assms(4) assms(7), of "cps ''OrganizerPdfs/'' @ continent @ [47] @ country"]
    by (simp add: d)
  show ?thesis
    unfolding Let_def d [symmetric] f [symmetric]
    by (rule conjI [OF refl place_trace])
qed

theorem destination_path_layout_witness:
  "path_join DESTINATION_FOLDER [cps ''ASIA'', cps ''Japan'', cps ''Tokyo'']
     = cps ''OrganizerPdfs/ASIA/Japan/Tokyo''
   \<and> trace (final (place (sim_env [] (Inl APIError) (Inl JSONDecodeError) None) (cps ''trip.pdf'')
        (cps ''PDFsForOrganizer/trip.pdf'') (cps ''Tokyo'', cps ''Japan'', cps ''ASIA'') start_state))
     = [Sys_Makedirs (cps ''OrganizerPdfs/ASIA/Japan/Tokyo'') None,
        Sys_Copy2 (cps ''PDFsForOrganizer/trip.pdf'') (cps ''OrganizerPdfs/ASIA/Japan/Tokyo/trip.pdf'') None,
        Print_Copied (cps ''OrganizerPdfs/ASIA/Japan/Tokyo'')]"
proof -
  have h: "cps ''Tokyo'' \<noteq> []" "cps ''Japan'' \<noteq> []" "cps ''ASIA'' \<noteq> []"
    "47 \<notin> set (cps ''Tokyo'')" "47 \<notin> set (cps ''Japan'')" "47 \<notin> set (cps ''ASIA'')"
    "47 \<notin> set (cps ''trip.pdf'')"
    by (simp_all add: cps_def)
  from destination_path_layout [OF h, of "sim_env [] (Inl APIError) (Inl JSONDecodeError) None"
      start_state "cps ''PDFsForOrganizer/trip.pdf''"]
  have "path_join DESTINATION_FOLDER [cps ''ASIA'', cps ''Japan'', cps ''Tokyo'']
     = cps ''OrganizerPdfs/'' @ cps ''ASIA'' @ [47] @ cps ''Japan'' @ [47] @ cps ''Tokyo''"
    by (rule conjunct1)
  moreover have "cps ''OrganizerPdfs/'' @ cps ''ASIA'' @ [47] @ cps ''Japan'' @ [47] @ cps ''Tokyo''
     = cps ''OrganizerPdfs/ASIA/Japan/Tokyo''"
    by (simp add: cps_def)
  ultimately have p1: "path_join DESTINATION_FOLDER [cps ''ASIA'', cps ''Japan'', cps ''Tokyo'']
     = cps ''OrganizerPdfs/ASIA/Japan/Tokyo''"
    by (rule trans)
  have p2: "path_join (cps ''OrganizerPdfs/ASIA/Japan/Tokyo'') [cps ''trip.pdf'']
     = cps ''OrganizerPdfs/ASIA/Japan/Tokyo/trip.pdf''"
    by (simp add: path_join_def join2_def startswith_def endswith_def cps_def)
  have "trace (final (place (sim_env [] (Inl APIError) (Inl JSONDecodeError) None) (cps ''trip.pdf'')
        (cps ''PDFsForOrganizer/trip.pdf'') (cps ''Tokyo'', cps ''Japan'', cps ''ASIA'') start_state))
     = [Sys_Makedirs (cps ''OrganizerPdfs/ASIA/Japan/Tokyo'') None,
        Sys_Copy2 (cps ''PDFsForOrganizer/trip.pdf'') (cps ''OrganizerPdfs/ASIA/Japan/Tokyo/trip.pdf'') None,
        Print_Copied (cps ''OrganizerPdfs/ASIA/Japan/Tokyo'')]"
    by (simp add: place_def final_def sim_env_def start_state_def Let_def p1 p2)
  with p1 show ?thesis by (rule conjI)
qed

text \<open>
  The claim as stated, for every complete normalized destination, fails when a field starts
  with the separator: the record with city \<open>"/tmp"\<close>, country \<open>"japan"\<close> and continent
  \<open>"asia"\<close> is complete, its city normalizes to \<open>"/tmp"\<close>, and joining discards the root,
  the continent and the country. The loop body creates \<open>/tmp\<close> and copies the file to
  \<open>/tmp/trip.pdf\<close>, outside the root.
\<close>

theorem destination_path_counterexample:
  "trace (final (process_destination (sim_env [] (Inl APIError) (Inl JSONDecodeError) None)
      (cps ''trip.pdf'') (cps ''PDFsForOrganizer/trip.pdf'') slash_city start_state))
   = [Print_Raw (JStr (cps ''/tmp'')) (JStr (cps ''japan'')) (JStr (cps ''asia'')),
      Sys_Makedirs (cps ''/tmp'') None,
      Sys_Copy2 (cps ''PDFsForOrganizer/trip.pdf'') (cps ''/tmp/trip.pdf'') None,
      Print_Copied (cps ''/tmp'')]
   \<and> cps ''/tmp'' \<noteq> cps ''OrganizerPdfs/ASIA/Japan//tmp''"
proof -
  let ?E = "sim_env [] (Inl APIError) (Inl JSONDecodeError) None"
  have r: "raw_fields slash_city = Inr (JStr (cps ''/tmp''), JStr (cps ''japan''), JStr (cps ''asia''))"
    by (simp add: raw_fields_def slash_city_def get_or_def dict_get_def cps_inj)
  have j: "normalize_country plain_db (cps ''japan'') = cps ''Japan''"
    by (rule normalize_country_key) (simp add: COUNTRY_NORMALIZATION_def)
  have "normalized plain_db (JStr (cps ''/tmp''), JStr (cps ''japan''), JStr (cps ''asia''))
     = Inr (cps ''/tmp'', normalize_country plain_db (cps ''japan''), cps ''ASIA'')"
    by (simp add: normalized_def call_normalizer_def call_upper_def city_simps py_upper_def ascii_simps)
  then have n: "normalized plain_db (JStr (cps ''/tmp''), JStr (cps ''japan''), JStr (cps ''asia''))
     = Inr (cps ''/tmp'', cps ''Japan'', cps ''ASIA'')"
    using j by simp
  have ne: "cps ''/tmp'' \<noteq> []" "cps ''Japan'' \<noteq> []" "cps ''ASIA'' \<noteq> []"
    by (simp_all add: cps_def)
  have d: "path_join DESTINATION_FOLDER [cps ''ASIA'', cps ''Japan'', cps ''/tmp''] = cps ''/tmp''"
    by (simp add: path_join_def join2_def startswith_def endswith_def DESTINATION_FOLDER_def cps_def)
  have f: "path_join (cps ''/tmp'') [cps ''trip.pdf''] = cps ''/tmp/trip.pdf''"
    by (simp add: path_join_def join2_def startswith_def endswith_def cps_def)
  have "trace (final (process_destination ?E
      (cps ''trip.pdf'') (cps ''PDFsForOrganizer/trip.pdf'') slash_city start_state))
   = [Print_Raw (JStr (cps ''/tmp'')) (JStr (cps ''japan'')) (JStr (cps ''asia'')),
      Sys_Makedirs (cps ''/tmp'') None,
      Sys_Copy2 (cps ''PDFsForOrganizer/trip.pdf'') (cps ''/tmp/trip.pdf'') None,
      Print_Copied (cps ''/tmp'')]"
    by (simp add: process_destination_def r n ne place_def d f Let_def sim_env_simps
        start_state_def emit_def final_def)
  moreover have "cps ''/tmp'' \<noteq> cps ''OrganizerPdfs/ASIA/Japan//tmp''"
    by (simp add: cps_inj)
  ultimately show ?thesis by (rule conjI)
qed

section \<open>The order of directory creation, deduplication and copy\<close>

lemma raw_fields_tokyo:
  "raw_fields tokyo = Inr (JStr (cps ''tokyo''), JStr (cps ''japan''), JStr (cps ''asia''))"
  by (simp add: raw_fields_def tokyo_def get_or_def dict_get_def cps_inj)

lemma normalized_tokyo:
  "normalized plain_db (JStr (cps ''tokyo''), JStr (cps ''japan''), JStr (cps ''asia''))
     = Inr (cps ''Tokyo'', cps ''Japan'', cps ''ASIA'')"
proof -
  have j: "normalize_country plain_db (cps ''japan'') = cps ''Japan''"
    by (rule normalize_country_key) (simp add: COUNTRY_NORMALIZATION_def)
  have "normalized plain_db (JStr (cps ''tokyo''), JStr (cps ''japan''), JStr (cps ''asia''))
     = Inr (cps ''Tokyo'', normalize_country plain_db (cps ''japan''), cps ''ASIA'')"
    by (simp add: normalized_def call_normalizer_def call_upper_def city_simps py_upper_def ascii_simps)
  then show ?thesis using j by simp
qed

lemma tokyo_dir:
  "path_join DESTINATION_FOLDER [cps ''ASIA'', cps ''Japan'', cps ''Tokyo'']
     = cps ''OrganizerPdfs/ASIA/Japan/Tokyo''"
  by (simp add: path_join_def join2_def startswith_def endswith_def DESTINATION_FOLDER_def cps_def)

lemma tokyo_file:
  "path_join (cps ''OrganizerPdfs/ASIA/Japan/Tokyo'') [cps ''trip.pdf'']
     = cps ''OrganizerPdfs/ASIA/Japan/Tokyo/trip.pdf''"
  by (simp add: path_join_def join2_def startswith_def endswith_def cps_def)

text \<open>
  Claim C10. For a record that passes the completeness check, the first thing the loop body
  does after printing the raw fields is to create the destination directory with its
  parents. If that call raises, the run ends there, before any deduplication check or copy.
  Otherwise the deduplication check and the copy see the world that the call has left: a
  record that is skipped as already copied ends in exactly that world, with the set of
  copied keys unchanged and no other call made, and a copy, whether it succeeds or fails, is
  attempted in that world, after the directory has been made.
\<close>

theorem directory_made_before_dedup_and_copy:
  assumes "raw_fields d = Inr (a, b, c)"
    and "normalized (udb E) (a, b, c) = Inr (city, country, continent)"
    and "city \<noteq> []" "country \<noteq> []" "continent \<noteq> []"
  shows "let final_dir = path_join DESTINATION_FOLDER [continent, country, city];
             dst = path_join final_dir [filename];
             key = (abspath (cwd E) src, abspath (cwd E) dst)
         in \<exists>r w. makedirs E final_dir (world st) = (r, w) \<and>
            (let st1 = st\<lparr>world := w,
                          trace := trace st @ [Print_Raw a b c, Sys_Makedirs final_dir r]\<rparr>
             in process_destination E filename src d st =
               (case r of
                  Some e \<Rightarrow> Inl (e, st1)
                | None \<Rightarrow>
                    if key \<in> copied st
                    then Inr (st1\<lparr>trace := trace st1 @ [Print_AlreadyCopied]\<rparr>)
                    else (case copy2 E src dst w of
                            (None, w2) \<Rightarrow>
                              Inr (st1\<lparr>world := w2, copied := insert key (copied st),
                                       trace := trace st1 @ [Sys_Copy2 src dst None,
                                                             Print_Copied final_dir]\<rparr>)
                          | (Some e, w2) \<Rightarrow>
                              Inr (st1\<lparr>world := w2,
                                       trace := trace st1 @ [Sys_Copy2 src dst (Some e),
                                                             Print_CopyError e]\<rparr>))))"
proof -
  obtain r w where m: "makedirs E (path_join DESTINATION_FOLDER [continent, country, city]) (world st) = (r, w)"
    by (cases "makedirs E (path_join DESTINATION_FOLDER [continent, country, city]) (world st)")
  show ?thesis
    unfolding Let_def
    apply (rule exI [of _ r], rule exI [of _ w], rule conjI [OF m])
    using assms m
    apply (simp add: process_destination_def place_def emit_def Let_def
        split: option.splits prod.splits)
    done
qed

theorem directory_made_before_dedup_and_copy_witness:
  "process_destination (sim_env [] (Inl APIError) (Inl JSONDecodeError) None) (cps ''trip.pdf'')
       (cps ''PDFsForOrganizer/trip.pdf'') tokyo
       \<lparr>world = [], copied = {(abspath (cps ''/home/u'') (cps ''PDFsForOrganizer/trip.pdf''),
                 abspath (cps ''/home/u'') (cps ''OrganizerPdfs/ASIA/Japan/Tokyo/trip.pdf''))},
        trace = []\<rparr>
   = Inr \<lparr>world = [cps ''OrganizerPdfs/ASIA/Japan/Tokyo''],
          copied = {(abspath (cps ''/home/u'') (cps ''PDFsForOrganizer/trip.pdf''),
                 abspath (cps ''/home/u'') (cps ''OrganizerPdfs/ASIA/Japan/Tokyo/trip.pdf''))},
          trace = [Print_Raw (JStr (cps ''tokyo'')) (JStr (cps ''japan'')) (JStr (cps ''asia'')),
                   Sys_Makedirs (cps ''OrganizerPdfs/ASIA/Japan/Tokyo'') None,
                   Print_AlreadyCopied]\<rparr>"
proof -
  let ?E = "sim_env [] (Inl APIError) (Inl JSONDecodeError) None"
  have u: "udb ?E = plain_db" "cwd ?E = cps ''/home/u''"
    "makedirs ?E = (\<lambda>p w. (None, p # w))"
    by (simp_all add: sim_env_def)
  have n: "normalized (udb ?E) (JStr (cps ''tokyo''), JStr (cps ''japan''), JStr (cps ''asia''))
     = Inr (cps ''Tokyo'', cps ''Japan'', cps ''ASIA'')"
    by (simp add: u normalized_tokyo)
  have h: "cps ''Tokyo'' \<noteq> []" "cps ''Japan'' \<noteq> []" "cps ''ASIA'' \<noteq> []"
    by (simp_all add: cps_def)
  from directory_made_before_dedup_and_copy [OF raw_fields_tokyo n h,
      where st = "\<lparr>world = [], copied = {(abspath (cps ''/home/u'') (cps ''PDFsForOrganizer/trip.pdf''),
                 abspath (cps ''/home/u'') (cps ''OrganizerPdfs/ASIA/Japan/Tokyo/trip.pdf''))},
        trace = []\<rparr>" and filename = "cps ''trip.pdf''" and src = "cps ''PDFsForOrganizer/trip.pdf''"]
  show ?thesis
    by (simp add: Let_def u tokyo_dir tokyo_file)
qed

section \<open>Classification failures\<close>

lemma extract_text_copied: "copied (snd (extract_text E p l st)) = copied st"
  by (simp add: extract_text_def Let_def split: prod.splits sum.splits)




section \<open>Deduplication\<close>

lemma copy_keys_append: "copy_keys cw (xs @ ys) = copy_keys cw xs @ copy_keys cw ys"
  by (simp add: copy_keys_def)

lemma attempt_keys_append: "attempt_keys cw (xs @ ys) = attempt_keys cw xs @ attempt_keys cw ys"
  by (simp add: attempt_keys_def)

lemma dedup_inv_emit:
  "copy_keys cw es = [] \<Longrightarrow> dedup_inv cw (emit es st) = dedup_inv cw st"
  by (simp add: dedup_inv_def copy_keys_append)

lemma dedup_inv_world: "dedup_inv cw (st\<lparr>world := w\<rparr>) = dedup_inv cw st"
  by (simp add: dedup_inv_def)

lemma place_inv:
  "dedup_inv (cwd E) st \<Longrightarrow> dedup_inv (cwd E) (final (place E filename src n st))"
  by (cases n)
     (auto simp: place_def final_def Let_def dedup_inv_def emit_def copy_keys_append
        copy_keys_def copied_key_def split: prod.splits option.splits)

lemma process_destination_inv:
  "dedup_inv (cwd E) st \<Longrightarrow> dedup_inv (cwd E) (final (process_destination E filename src d st))"
proof -
  assume i: "dedup_inv (cwd E) st"
  have e: "\<And>es. copy_keys (cwd E) es = [] \<Longrightarrow> dedup_inv (cwd E) (emit es st)"
    using i by (simp add: dedup_inv_emit)
  show ?thesis
  proof (cases "raw_fields d")
    case (Inl x)
    then show ?thesis using i by (simp add: process_destination_def final_def)
  next
    case (Inr raw)
    obtain a b c where raw: "raw = (a, b, c)" by (cases raw) auto
    have s1: "dedup_inv (cwd E) (emit [Print_Raw a b c] st)"
      by (rule e) (simp add: copy_keys_def copied_key_def)
    show ?thesis
    proof (cases "normalized (udb E) raw")
      case (Inl x)
      then show ?thesis using Inr raw s1 by (simp add: process_destination_def final_def)
    next
      case (Inr n)
      obtain city country continent where n: "n = (city, country, continent)" by (cases n) auto
      show ?thesis
      proof (cases "city = [] \<or> country = [] \<or> continent = []")
        case True
        have "dedup_inv (cwd E) (emit [Log_Incomplete filename d] (emit [Print_Raw a b c] st))"
          using s1 by (simp add: dedup_inv_emit copy_keys_def copied_key_def)
        then show ?thesis
          using True Inr n raw \<open>raw_fields d = Inr raw\<close>
          by (simp add: process_destination_def final_def)
      next
        case False
        then show ?thesis
          using Inr n raw \<open>raw_fields d = Inr raw\<close> place_inv [OF s1]
          by (simp add: process_destination_def)
      qed
    qed
  qed
qed

lemma process_destinations_inv:
  "dedup_inv (cwd E) st \<Longrightarrow> dedup_inv (cwd E) (final (process_destinations E filename src ds st))"
proof (induction ds arbitrary: st)
  case Nil
  then show ?case by (simp add: final_def)
next
  case (Cons d ds)
  from Cons.prems have p: "dedup_inv (cwd E) (final (process_destination E filename src d st))"
    by (rule process_destination_inv)
  show ?case
  proof (cases "process_destination E filename src d st")
    case (Inl x)
    then show ?thesis using p by (simp add: final_def)
  next
    case (Inr st')
    with p have "dedup_inv (cwd E) st'" by (simp add: final_def)
    then show ?thesis using Inr Cons.IH by simp
  qed
qed

lemma extract_text_inv:
  "dedup_inv cw (snd (extract_text E p l st)) = dedup_inv cw st"
  by (simp add: extract_text_def Let_def dedup_inv_def emit_def copy_keys_append
      copy_keys_def copied_key_def split: prod.splits sum.splits)

lemma analyze_inv:
  "dedup_inv cw (snd (analyze_text_with_gemini E text filename st)) = dedup_inv cw st"
  by (simp add: analyze_text_with_gemini_def Let_def dedup_inv_def emit_def copy_keys_append
      copy_keys_def copied_key_def split: prod.splits sum.splits option.splits)

lemma no_copy_events [simp]:
  "copy_keys cw [Print_Processing f] = []" "copy_keys cw [Ignored f] = []"
  "copy_keys cw [Print_NoText] = []" "copy_keys cw [Print_NoDestinations] = []"
  "copy_keys cw [Print_Detected] = []" "copy_keys cw [Print_Blank] = []"
  "copy_keys cw [Log_Header h, Print_Done] = []"
  "copy_keys cw [Print_Starting, Sys_Listdir p] = []"
  by (simp_all add: copy_keys_def copied_key_def)

lemma process_file_inv:
  assumes i: "dedup_inv (cwd E) st"
  shows "dedup_inv (cwd E) (final (process_file kws E filename st))"
proof -
  let ?st1 = "emit [Print_Processing filename] st"
  let ?src = "path_join SOURCE_FOLDER [filename]"
  have i1: "dedup_inv (cwd E) ?st1" using i by (simp add: dedup_inv_emit)
  obtain doc_text st2 where x: "extract_text E ?src PAGE_EXTRACT_LIMIT ?st1 = (doc_text, st2)"
    by (cases "extract_text E ?src PAGE_EXTRACT_LIMIT ?st1")
  have i2: "dedup_inv (cwd E) st2"
    using extract_text_inv [of "cwd E" E ?src PAGE_EXTRACT_LIMIT ?st1] x i1 by simp
  obtain dests st3 where a: "analyze_text_with_gemini E doc_text filename st2 = (dests, st3)"
    by (cases "analyze_text_with_gemini E doc_text filename st2")
  have i3: "dedup_inv (cwd E) st3"
    using analyze_inv [of "cwd E" E doc_text filename st2] a i2 by simp
  have i4: "dedup_inv (cwd E) (emit [Print_Detected] st3)"
    using i3 by (simp add: dedup_inv_emit)
  have i5: "\<And>ds. dedup_inv (cwd E)
     (final (process_destinations E filename ?src ds (emit [Print_Detected] st3)))"
    using i4 by (rule process_destinations_inv)
  show ?thesis
  proof (cases "\<not> is_pdf (udb E) filename")
    case True
    then show ?thesis using i by (simp add: process_file_def final_def)
  next
    case pdf: False
    show ?thesis
    proof (cases "ignored (udb E) kws filename")
      case True
      then show ?thesis using pdf i1
        by (simp add: process_file_def final_def Let_def dedup_inv_emit)
    next
      case ign: False
      show ?thesis
      proof (cases "py_strip (udb E) doc_text = []")
        case True
        then show ?thesis using pdf ign x i2
          by (simp add: process_file_def final_def Let_def dedup_inv_emit)
      next
        case nonblank: False
        show ?thesis
        proof (cases "truthy dests")
          case False
          then show ?thesis using pdf ign nonblank x a i3
            by (simp add: process_file_def final_def Let_def dedup_inv_emit)
        next
          case tr: True
          show ?thesis
          proof (cases "iterate dests")
            case (Inl e)
            then show ?thesis using pdf ign nonblank tr x a i4
              by (simp add: process_file_def final_def Let_def)
          next
            case (Inr ds)
            show ?thesis
            proof (cases "process_destinations E filename ?src ds (emit [Print_Detected] st3)")
              case (Inl y)
              then show ?thesis using pdf ign nonblank tr x a Inr i5 [of ds]
                by (simp add: process_file_def final_def Let_def)
            next
              case r: (Inr st4)
              then have "dedup_inv (cwd E) st4" using i5 [of ds] by (simp add: final_def)
              then show ?thesis using pdf ign nonblank tr x a Inr r
                by (simp add: process_file_def final_def Let_def dedup_inv_emit)
            qed
          qed
        qed
      qed
    qed
  qed
qed

lemma process_files_inv:
  "dedup_inv (cwd E) st \<Longrightarrow> dedup_inv (cwd E) (final (process_files kws E filenames st))"
proof (induction filenames arbitrary: st)
  case Nil
  then show ?case by (simp add: final_def)
next
  case (Cons f fs)
  from Cons.prems have p: "dedup_inv (cwd E) (final (process_file kws E f st))"
    by (rule process_file_inv)
  show ?case
  proof (cases "process_file kws E f st")
    case (Inl x)
    then show ?thesis using p by (simp add: final_def)
  next
    case (Inr st')
    with p have "dedup_inv (cwd E) st'" by (simp add: final_def)
    then show ?thesis using Inr Cons.IH by simp
  qed
qed

lemma run_inv: "dedup_inv (cwd E) (final (run kws E w))"
proof -
  obtain r w1 where m: "makedirs E DESTINATION_FOLDER w = (r, w1)"
    by (cases "makedirs E DESTINATION_FOLDER w")
  obtain l w2 where ls: "listdir E SOURCE_FOLDER w1 = (l, w2)"
    by (cases "listdir E SOURCE_FOLDER w1")
  let ?st0 = "\<lparr>world = w1, copied = {},
                trace = [Log_Header ''START'', Sys_Makedirs DESTINATION_FOLDER r]\<rparr>"
  let ?st1 = "emit [Print_Starting, Sys_Listdir SOURCE_FOLDER] (?st0\<lparr>world := w2\<rparr>)"
  have i0: "dedup_inv (cwd E) ?st0"
    by (simp add: dedup_inv_def copy_keys_def copied_key_def)
  have i1: "dedup_inv (cwd E) ?st1"
    by (simp add: dedup_inv_def emit_def copy_keys_def copied_key_def)
  have i2: "\<And>fs. dedup_inv (cwd E) (final (process_files kws E fs ?st1))"
    using i1 by (rule process_files_inv)
  show ?thesis
  proof (cases r)
    case (Some e)
    then show ?thesis using m i0 by (simp add: run_def final_def)
  next
    case None
    show ?thesis
    proof (cases l)
      case (Inl e)
      then show ?thesis using m None ls i1 by (simp add: run_def final_def Let_def)
    next
      case (Inr fs)
      show ?thesis
      proof (cases "process_files kws E fs ?st1")
        case (Inl y)
        then show ?thesis using m None ls Inr i2 [of fs] by (simp add: run_def final_def Let_def)
      next
        case r2: (Inr st2)
        then have "dedup_inv (cwd E) st2" using i2 [of fs] by (simp add: final_def)
        then show ?thesis using m None ls Inr r2
          by (simp add: run_def final_def Let_def dedup_inv_emit)
      qed
    qed
  qed
qed

lemma place_dedup:
  assumes "makedirs E (path_join DESTINATION_FOLDER [continent, country, city]) (world st) = (None, w1)"
    and "copied st = set (copy_keys (cwd E) (trace st))"
  shows "let dst = path_join (path_join DESTINATION_FOLDER [continent, country, city]) [filename];
             key = (abspath (cwd E) src, abspath (cwd E) dst);
             st' = final (place E filename src (city, country, continent) st)
         in (key \<in> set (copy_keys (cwd E) (trace st)) \<longrightarrow>
               attempt_keys (cwd E) (trace st') = attempt_keys (cwd E) (trace st)
               \<and> copy_keys (cwd E) (trace st') = copy_keys (cwd E) (trace st)
               \<and> last (trace st') = Print_AlreadyCopied)
          \<and> (key \<notin> set (copy_keys (cwd E) (trace st)) \<longrightarrow>
               attempt_keys (cwd E) (trace st') = attempt_keys (cwd E) (trace st) @ [key]
               \<and> copy_keys (cwd E) (trace st')
                   = copy_keys (cwd E) (trace st)
                     @ (if fst (copy2 E src dst w1) = None then [key] else []))"
  using assms
  by (auto simp: place_def final_def Let_def emit_def copy_keys_append attempt_keys_append
      copy_keys_def copied_key_def attempt_keys_def attempted_key_def
      split: prod.splits option.splits)

lemma process_tokyo:
  assumes "udb E = plain_db"
  shows "process_destination E (cps ''trip.pdf'') (cps ''PDFsForOrganizer/trip.pdf'') tokyo st
     = place E (cps ''trip.pdf'') (cps ''PDFsForOrganizer/trip.pdf'')
         (cps ''Tokyo'', cps ''Japan'', cps ''ASIA'')
         (emit [Print_Raw (JStr (cps ''tokyo'')) (JStr (cps ''japan'')) (JStr (cps ''asia''))] st)"
proof -
  have "cps ''Tokyo'' \<noteq> []" "cps ''Japan'' \<noteq> []" "cps ''ASIA'' \<noteq> []"
    by (simp_all add: cps_def)
  then show ?thesis
    by (simp add: process_destination_def raw_fields_tokyo normalized_tokyo assms)
qed

text \<open>
  Claim C4, as the code has it. A key, the pair of the absolute source path and the absolute
  destination path, is put into the set \<open>copied\<close> only when its copy has succeeded. In every
  run, finished or ended by an exception, the set holds exactly the keys of the copies that
  succeeded, and no key has succeeded twice: at most one successful copy per key. A request
  whose key has already been copied is reported as already copied and no copy is attempted;
  a request whose key has not been copied is attempted, and its key is recorded if and only
  if the copy succeeds. So a repeat of a copied key is always skipped, never placed a second
  time, and a key whose copy failed is attempted again when it comes back.
\<close>

theorem dedup_records_successful_copies:
  "distinct (copy_keys (cwd E) (trace (final (run kws E w))))
   \<and> copied (final (run kws E w)) = set (copy_keys (cwd E) (trace (final (run kws E w))))
   \<and> (dedup_inv (cwd E) st
       \<and> makedirs E (path_join DESTINATION_FOLDER [continent, country, city]) (world st) = (None, w1)
      \<longrightarrow>
       (let dst = path_join (path_join DESTINATION_FOLDER [continent, country, city]) [filename];
            key = (abspath (cwd E) src, abspath (cwd E) dst);
            st' = final (place E filename src (city, country, continent) st)
        in (key \<in> set (copy_keys (cwd E) (trace st)) \<longrightarrow>
              attempt_keys (cwd E) (trace st') = attempt_keys (cwd E) (trace st)
              \<and> copy_keys (cwd E) (trace st') = copy_keys (cwd E) (trace st)
              \<and> last (trace st') = Print_AlreadyCopied)
         \<and> (key \<notin> set (copy_keys (cwd E) (trace st)) \<longrightarrow>
              attempt_keys (cwd E) (trace st') = attempt_keys (cwd E) (trace st) @ [key]
              \<and> copy_keys (cwd E) (trace st')
                  = copy_keys (cwd E) (trace st)
                    @ (if fst (copy2 E src dst w1) = None then [key] else []))))"
proof (intro conjI impI)
  show "distinct (copy_keys (cwd E) (trace (final (run kws E w))))"
    using run_inv [of E kws w] by (simp add: dedup_inv_def)
  show "copied (final (run kws E w)) = set (copy_keys (cwd E) (trace (final (run kws E w))))"
    using run_inv [of E kws w] by (simp add: dedup_inv_def)
next
  assume h: "dedup_inv (cwd E) st
       \<and> makedirs E (path_join DESTINATION_FOLDER [continent, country, city]) (world st) = (None, w1)"
  then have "copied st = set (copy_keys (cwd E) (trace st))" by (simp add: dedup_inv_def)
  with h show "let dst = path_join (path_join DESTINATION_FOLDER [continent, country, city]) [filename];
            key = (abspath (cwd E) src, abspath (cwd E) dst);
            st' = final (place E filename src (city, country, continent) st)
        in (key \<in> set (copy_keys (cwd E) (trace st)) \<longrightarrow>
              attempt_keys (cwd E) (trace st') = attempt_keys (cwd E) (trace st)
              \<and> copy_keys (cwd E) (trace st') = copy_keys (cwd E) (trace st)
              \<and> last (trace st') = Print_AlreadyCopied)
         \<and> (key \<notin> set (copy_keys (cwd E) (trace st)) \<longrightarrow>
              attempt_keys (cwd E) (trace st') = attempt_keys (cwd E) (trace st) @ [key]
              \<and> copy_keys (cwd E) (trace st')
                  = copy_keys (cwd E) (trace st)
                    @ (if fst (copy2 E src dst w1) = None then [key] else []))"
    using place_dedup [of E continent country city st w1 filename src] by blast
qed

theorem dedup_records_successful_copies_witness:
  "copy_keys (cps ''/home/u'')
     (trace (final (run [cps ''draft'']
        (sim_env [cps ''trip.pdf''] (Inr (Some (cps ''[]''))) (Inr (JList [tokyo, tokyo])) None) [])))
   = [(abspath (cps ''/home/u'') (cps ''PDFsForOrganizer/trip.pdf''),
       abspath (cps ''/home/u'') (cps ''OrganizerPdfs/ASIA/Japan/Tokyo/trip.pdf''))]
   \<and> copied (final (run [cps ''draft'']
        (sim_env [cps ''trip.pdf''] (Inr (Some (cps ''[]''))) (Inr (JList [tokyo, tokyo])) None) []))
   = {(abspath (cps ''/home/u'') (cps ''PDFsForOrganizer/trip.pdf''),
       abspath (cps ''/home/u'') (cps ''OrganizerPdfs/ASIA/Japan/Tokyo/trip.pdf''))}
   \<and> Print_AlreadyCopied \<in> set (trace (final (run [cps ''draft'']
        (sim_env [cps ''trip.pdf''] (Inr (Some (cps ''[]''))) (Inr (JList [tokyo, tokyo])) None) [])))"
proof -
  let ?E = "sim_env [cps ''trip.pdf''] (Inr (Some (cps ''[]''))) (Inr (JList [tokyo, tokyo])) None"
  let ?f = "cps ''trip.pdf''"
  let ?src = "cps ''PDFsForOrganizer/trip.pdf''"
  let ?dir = "cps ''OrganizerPdfs/ASIA/Japan/Tokyo''"
  let ?dst = "cps ''OrganizerPdfs/ASIA/Japan/Tokyo/trip.pdf''"
  let ?doc = "cps ''Trip to Tokyo'' @ [10]"
  let ?raw = "Print_Raw (JStr (cps ''tokyo'')) (JStr (cps ''japan'')) (JStr (cps ''asia''))"
  have pdf: "is_pdf plain_db ?f"
    by (simp add: is_pdf_def endswith_def cps_def py_lower_def ascii_simps)
  have ign: "\<not> ignored plain_db [cps ''draft''] ?f"
    by (simp add: ignored_def startswith_def cps_def py_lower_def ascii_simps)
  have srcp: "path_join SOURCE_FOLDER [?f] = ?src"
    by (simp add: path_join_def join2_def startswith_def endswith_def SOURCE_FOLDER_def cps_def)
  have nonblank: "py_strip plain_db ?doc \<noteq> []"
    by (simp add: py_strip_def cps_def ascii_simps)
  have tr: "trace (final (run [cps ''draft''] ?E []))
    = [Log_Header ''START'', Sys_Makedirs DESTINATION_FOLDER None, Print_Starting,
       Sys_Listdir SOURCE_FOLDER, Print_Processing ?f, Sys_FitzOpen ?src,
       Log_Prompt ?f ?doc, Sys_GenerateContent ?f ?doc,
       Log_Raw ?f (py_strip plain_db (cps ''[]'')), Print_Detected,
       ?raw, Sys_Makedirs ?dir None, Sys_Copy2 ?src ?dst None, Print_Copied ?dir,
       ?raw, Sys_Makedirs ?dir None, Print_AlreadyCopied,
       Print_Blank, Log_Header ''END'', Print_Done]"
    by (simp add: run_def process_file_def extract_text_def analyze_text_with_gemini_def
        iterate_def process_tokyo place_def tokyo_dir tokyo_file sim_env_simps emit_def
        final_def Let_def PAGE_EXTRACT_LIMIT_def pdf ign srcp nonblank)
  have ck: "copy_keys (cps ''/home/u'') (trace (final (run [cps ''draft''] ?E [])))
     = [(abspath (cps ''/home/u'') ?src, abspath (cps ''/home/u'') ?dst)]"
    unfolding tr by (simp add: copy_keys_def copied_key_def)
  from dedup_records_successful_copies [of ?E "[cps ''draft'']" "[]"]
  have "copied (final (run [cps ''draft''] ?E []))
     = set (copy_keys (cwd ?E) (trace (final (run [cps ''draft''] ?E []))))"
    by blast
  then have cp: "copied (final (run [cps ''draft''] ?E []))
     = {(abspath (cps ''/home/u'') ?src, abspath (cps ''/home/u'') ?dst)}"
    by (simp add: sim_env_simps ck)
  have ac: "Print_AlreadyCopied \<in> set (trace (final (run [cps ''draft''] ?E [])))"
    unfolding tr by simp
  from ck cp ac show ?thesis by (intro conjI)
qed

text \<open>
  The claim as stated, that the deduplicator answers true only the first time a key is seen
  and that a key triggers at most one copy operation, fails when the first copy fails: with a
  copy that raises, the same record twice gives two copy attempts under the same key and no
  skip.
\<close>

theorem dedup_counterexample:
  "attempt_keys (cps ''/home/u'')
     (trace (final (process_destinations
        (sim_env [] (Inl APIError) (Inl JSONDecodeError) (Some (OSError 28)))
        (cps ''trip.pdf'') (cps ''PDFsForOrganizer/trip.pdf'') [tokyo, tokyo] start_state)))
   = [(abspath (cps ''/home/u'') (cps ''PDFsForOrganizer/trip.pdf''),
       abspath (cps ''/home/u'') (cps ''OrganizerPdfs/ASIA/Japan/Tokyo/trip.pdf'')),
      (abspath (cps ''/home/u'') (cps ''PDFsForOrganizer/trip.pdf''),
       abspath (cps ''/home/u'') (cps ''OrganizerPdfs/ASIA/Japan/Tokyo/trip.pdf''))]
   \<and> Print_AlreadyCopied \<notin> set (trace (final (process_destinations
        (sim_env [] (Inl APIError) (Inl JSONDecodeError) (Some (OSError 28)))
        (cps ''trip.pdf'') (cps ''PDFsForOrganizer/trip.pdf'') [tokyo, tokyo] start_state)))"
proof -
  let ?E = "sim_env [] (Inl APIError) (Inl JSONDecodeError) (Some (OSError 28))"
  have u: "udb ?E = plain_db" by (simp add: sim_env_def)
  have t: "trace (final (process_destinations ?E (cps ''trip.pdf'')
        (cps ''PDFsForOrganizer/trip.pdf'') [tokyo, tokyo] start_state))
    = [Print_Raw (JStr (cps ''tokyo'')) (JStr (cps ''japan'')) (JStr (cps ''asia'')),
       Sys_Makedirs (cps ''OrganizerPdfs/ASIA/Japan/Tokyo'') None,
       Sys_Copy2 (cps ''PDFsForOrganizer/trip.pdf'') (cps ''OrganizerPdfs/ASIA/Japan/Tokyo/trip.pdf'')
         (Some (OSError 28)),
       Print_CopyError (OSError 28),
       Print_Raw (JStr (cps ''tokyo'')) (JStr (cps ''japan'')) (JStr (cps ''asia'')),
       Sys_Makedirs (cps ''OrganizerPdfs/ASIA/Japan/Tokyo'') None,
       Sys_Copy2 (cps ''PDFsForOrganizer/trip.pdf'') (cps ''OrganizerPdfs/ASIA/Japan/Tokyo/trip.pdf'')
         (Some (OSError 28)),
       Print_CopyError (OSError 28)]"
    by (simp add: process_tokyo [OF u] place_def tokyo_dir tokyo_file Let_def sim_env_simps
        start_state_def emit_def final_def)
  show ?thesis
    unfolding t by (simp add: attempt_keys_def attempted_key_def)
qed

end
